theory Spec2Isabelle
  imports Complex_Main "HOL-Library.AList"
begin

section \<open>Conventions of the embedding\<close>

text \<open>
  The program is JavaScript. Its values are modelled as follows.
  \<^item> Prices, volumes, periods, confidences and the clock offset are \<open>real\<close>: the
    arithmetic of the source is read as exact arithmetic, so rounding, the infinities
    and the \<open>NaN\<close> of a division of zero by zero are outside the model.
  \<^item> The time value of a valid \<open>Date\<close> (what \<open>getTime()\<close> returns) is an \<open>int\<close>, a
    number of milliseconds since the epoch, possibly negative. The limit of the
    \<open>Date\<close> range (about 275000 years around the epoch) is outside the model.
  \<^item> \<open>null\<close> and \<open>undefined\<close> are \<open>None\<close>; an exception is the left summand of a sum.
  \<^item> Arithmetic on a value that is not a number gives \<open>NaN\<close>; where a field can
    hold this \<open>NaN\<close>, the field is an option and \<open>NaN\<close> is \<open>None\<close>.
\<close>

text \<open>
  The operator \<open>%\<close> on integers, for a divisor other than 0: the result has the sign
  of the dividend.
\<close>

definition js_rem :: "int \<Rightarrow> int \<Rightarrow> int" where
  "js_rem a b = sgn a * (\<bar>a\<bar> mod \<bar>b\<bar>)"

text \<open>
  A \<open>Date\<close> object: a time value, or the invalid date that \<open>new Date(NaN)\<close> gives.
\<close>

datatype date = Date int | Invalid_Date

text \<open>
  \<open>new Date(x)\<close> for a number \<open>x\<close> keeps the integral part of \<open>x\<close>, rounding toward
  zero (the \<open>TimeClip\<close> operation of the language); the result is the time value.
\<close>

definition Date_new :: "real \<Rightarrow> int" where
  "Date_new x = (if 0 \<le> x then \<lfloor>x\<rfloor> else \<lceil>x\<rceil>)"

text \<open>
  What reading a property of an object literal with numeric values can give:
  \<open>undefined\<close>, a number, or a member inherited from \<open>Object.prototype\<close> (a function
  or an object), since \<open>obj[key]\<close> follows the prototype chain.
\<close>

datatype jsval = Undefined | Num int | Inherited

definition Object_prototype_names :: "string list" where
  "Object_prototype_names =
     [''constructor'', ''hasOwnProperty'', ''isPrototypeOf'', ''propertyIsEnumerable'',
      ''toLocaleString'', ''toString'', ''valueOf'', ''__proto__'', ''__defineGetter__'',
      ''__defineSetter__'', ''__lookupGetter__'', ''__lookupSetter__'']"

definition get_property :: "(string \<times> int) list \<Rightarrow> string \<Rightarrow> jsval" where
  "get_property obj key =
     (case map_of obj key of
        Some v \<Rightarrow> Num v
      | None \<Rightarrow> (if key \<in> set Object_prototype_names then Inherited else Undefined))"

text \<open>The values that pass \<open>if (v)\<close> and \<open>v || d\<close>.\<close>

fun truthy :: "jsval \<Rightarrow> bool" where
  "truthy Undefined = False"
| "truthy (Num n) = (n \<noteq> 0)"
| "truthy Inherited = True"

text \<open>
  The decimal text of an integer, as a template literal prints it: the digits are
  produced from the last to the first.
\<close>

fun decimal :: "nat \<Rightarrow> string \<Rightarrow> string" where
  "decimal n suffix =
     (if n < 10 then (''0123456789'' ! n) # suffix
      else decimal (n div 10) ((''0123456789'' ! (n mod 10)) # suffix))"

declare decimal.simps [simp del]

definition js_string_of_int :: "int \<Rightarrow> string" where
  "js_string_of_int i = (if i < 0 then CHR ''-'' # decimal (nat (- i)) [] else decimal (nat i) [])"

text \<open>\<open>xs.shift()\<close> removes the first element; on an empty array it does nothing.\<close>

definition shift :: "'a list \<Rightarrow> 'a list" where
  "shift xs = (case xs of [] \<Rightarrow> [] | _ # ys \<Rightarrow> ys)"

text \<open>\<open>xs.reduce((sum, x) => sum + x, 0)\<close>\<close>

definition reduce_sum :: "real list \<Rightarrow> real" where
  "reduce_sum xs = foldl (\<lambda>sum x. sum + x) 0 xs"

section \<open>Indicators (src/engine/indicators/index.js)\<close>

text \<open>
  Each class is a record of its fields; a method takes the state of the instance and
  returns its result with the new state. The constructors are modelled for given
  arguments (an omitted argument takes its default, 14 for the period of RSI and ATR,
  20 and 2 for Bollinger bands, before the model applies).
\<close>

subsection \<open>EMA\<close>

record EMA =
  ema_period :: real
  ema_multiplier :: real
  ema_ema :: "real option"

definition EMA_new :: "real \<Rightarrow> EMA" where
  "EMA_new period = \<lparr>ema_period = period, ema_multiplier = 2 / (period + 1), ema_ema = None\<rparr>"

definition EMA_update :: "EMA \<Rightarrow> real \<Rightarrow> real option \<times> EMA" where
  "EMA_update s price =
     (let s' = (case ema_ema s of
                  None \<Rightarrow> s\<lparr>ema_ema := Some price\<rparr>
                | Some e \<Rightarrow> s\<lparr>ema_ema := Some (price * ema_multiplier s + e * (1 - ema_multiplier s))\<rparr>)
      in (ema_ema s', s'))"

definition EMA_getValue :: "EMA \<Rightarrow> real option" where
  "EMA_getValue s = ema_ema s"

definition EMA_reset :: "EMA \<Rightarrow> EMA" where
  "EMA_reset s = s\<lparr>ema_ema := None\<rparr>"

subsection \<open>RSI\<close>

record RSI =
  rsi_period :: real
  rsi_gains :: "real list"
  rsi_losses :: "real list"
  rsi_lastPrice :: "real option"

definition RSI_new :: "real \<Rightarrow> RSI" where
  "RSI_new period = \<lparr>rsi_period = period, rsi_gains = [], rsi_losses = [], rsi_lastPrice = None\<rparr>"

text \<open>The value computed from the two windows, shared by \<open>update\<close> and \<open>getValue\<close>.\<close>

definition RSI_value :: "RSI \<Rightarrow> real" where
  "RSI_value s =
     (let avgGain = reduce_sum (rsi_gains s) / rsi_period s;
          avgLoss = reduce_sum (rsi_losses s) / rsi_period s
      in if avgLoss = 0 then 100
         else (let rs = avgGain / avgLoss in 100 - 100 / (1 + rs)))"

text \<open>
  \<open>update\<close> returns from inside the branch \<open>gains.length === period\<close>, before the
  assignment \<open>this.lastPrice = price\<close> at the end of the method is reached.
\<close>

definition RSI_update :: "RSI \<Rightarrow> real \<Rightarrow> real option \<times> RSI" where
  "RSI_update s price =
     (case rsi_lastPrice s of
        None \<Rightarrow> (None, s\<lparr>rsi_lastPrice := Some price\<rparr>)
      | Some lastPrice \<Rightarrow>
          (let change = price - lastPrice;
               gain = (if change > 0 then change else 0);
               loss = (if change < 0 then - change else 0);
               s1 = s\<lparr>rsi_gains := rsi_gains s @ [gain], rsi_losses := rsi_losses s @ [loss]\<rparr>;
               s2 = (if real (length (rsi_gains s1)) > rsi_period s1
                     then s1\<lparr>rsi_gains := shift (rsi_gains s1), rsi_losses := shift (rsi_losses s1)\<rparr>
                     else s1)
           in if real (length (rsi_gains s2)) = rsi_period s2
              then (Some (RSI_value s2), s2)
              else (None, s2\<lparr>rsi_lastPrice := Some price\<rparr>)))"

definition RSI_getValue :: "RSI \<Rightarrow> real option" where
  "RSI_getValue s =
     (if real (length (rsi_gains s)) < rsi_period s then None else Some (RSI_value s))"

definition RSI_reset :: "RSI \<Rightarrow> RSI" where
  "RSI_reset s = s\<lparr>rsi_gains := [], rsi_losses := [], rsi_lastPrice := None\<rparr>"

subsection \<open>Candles, as the indicators and the candle builder see them\<close>

record candle =
  candle_symbol :: string
  candle_frame :: string
  candle_open :: real
  candle_high :: real
  candle_low :: real
  candle_close :: real
  candle_ts_open :: date
  candle_ts_close :: date
  candle_volume :: real
  candle_tickCount :: nat

subsection \<open>ATR\<close>

record ATR =
  atr_period :: real
  atr_trueRanges :: "real list"
  atr_lastCandle :: "candle option"

definition ATR_new :: "real \<Rightarrow> ATR" where
  "ATR_new period = \<lparr>atr_period = period, atr_trueRanges = [], atr_lastCandle = None\<rparr>"

definition ATR_getValue :: "ATR \<Rightarrow> real option" where
  "ATR_getValue s =
     (if length (atr_trueRanges s) = 0 then None
      else Some (reduce_sum (atr_trueRanges s) / real (length (atr_trueRanges s))))"

definition ATR_update :: "ATR \<Rightarrow> candle \<Rightarrow> real option \<times> ATR" where
  "ATR_update s c =
     (let s2 = (case atr_lastCandle s of
                  None \<Rightarrow> s
                | Some lastCandle \<Rightarrow>
                    (let high = candle_high c;
                         low = candle_low c;
                         prevClose = candle_close lastCandle;
                         tr1 = high - low;
                         tr2 = \<bar>high - prevClose\<bar>;
                         tr3 = \<bar>low - prevClose\<bar>;
                         trueRange = max (max tr1 tr2) tr3;
                         s1 = s\<lparr>atr_trueRanges := atr_trueRanges s @ [trueRange]\<rparr>
                     in if real (length (atr_trueRanges s1)) > atr_period s1
                        then s1\<lparr>atr_trueRanges := shift (atr_trueRanges s1)\<rparr>
                        else s1));
          s3 = s2\<lparr>atr_lastCandle := Some c\<rparr>
      in (ATR_getValue s3, s3))"

definition ATR_reset :: "ATR \<Rightarrow> ATR" where
  "ATR_reset s = s\<lparr>atr_trueRanges := [], atr_lastCandle := None\<rparr>"

subsection \<open>Bollinger bands\<close>

record bands =
  middle :: real
  upper :: real
  lower :: real
  bandwidth :: real

record BollingerBands =
  bb_period :: real
  bb_stdDev :: real
  bb_prices :: "real list"

definition BollingerBands_new :: "real \<Rightarrow> real \<Rightarrow> BollingerBands" where
  "BollingerBands_new period stdDev = \<lparr>bb_period = period, bb_stdDev = stdDev, bb_prices = []\<rparr>"

definition BollingerBands_getValue :: "BollingerBands \<Rightarrow> bands option" where
  "BollingerBands_getValue s =
     (if real (length (bb_prices s)) < bb_period s then None
      else (let sma = reduce_sum (bb_prices s) / bb_period s;
                variance = foldl (\<lambda>sum p. sum + (p - sma) ^ 2) 0 (bb_prices s) / bb_period s;
                stdDeviation = sqrt variance
            in Some \<lparr>middle = sma,
                     upper = sma + stdDeviation * bb_stdDev s,
                     lower = sma - stdDeviation * bb_stdDev s,
                     bandwidth = (stdDeviation * bb_stdDev s * 2) / sma\<rparr>))"

text \<open>
  After the window has been pushed and trimmed, \<open>update\<close> repeats the text of
  \<open>getValue\<close>; the model calls it.
\<close>

definition BollingerBands_update :: "BollingerBands \<Rightarrow> real \<Rightarrow> bands option \<times> BollingerBands" where
  "BollingerBands_update s price =
     (let s1 = s\<lparr>bb_prices := bb_prices s @ [price]\<rparr>;
          s2 = (if real (length (bb_prices s1)) > bb_period s1
                then s1\<lparr>bb_prices := shift (bb_prices s1)\<rparr> else s1)
      in (BollingerBands_getValue s2, s2))"

definition BollingerBands_reset :: "BollingerBands \<Rightarrow> BollingerBands" where
  "BollingerBands_reset s = s\<lparr>bb_prices := []\<rparr>"

subsection \<open>VWAP\<close>

record VWAP =
  totalVolume :: real
  totalVolumePrice :: real

definition VWAP_new :: VWAP where
  "VWAP_new = \<lparr>totalVolume = 0, totalVolumePrice = 0\<rparr>"

definition VWAP_getValue :: "VWAP \<Rightarrow> real option" where
  "VWAP_getValue s =
     (if totalVolume s = 0 then None else Some (totalVolumePrice s / totalVolume s))"

text \<open>The second argument of \<open>update\<close> is optional and defaults to 1.\<close>

definition VWAP_update :: "VWAP \<Rightarrow> real \<times> real option \<Rightarrow> real option \<times> VWAP" where
  "VWAP_update s pv =
     (let price = fst pv;
          volume = (case snd pv of None \<Rightarrow> 1 | Some v \<Rightarrow> v);
          s1 = s\<lparr>totalVolume := totalVolume s + volume\<rparr>;
          s2 = s1\<lparr>totalVolumePrice := totalVolumePrice s1 + price * volume\<rparr>
      in (VWAP_getValue s2, s2))"

definition VWAP_reset :: "VWAP \<Rightarrow> VWAP" where
  "VWAP_reset s = s\<lparr>totalVolume := 0, totalVolumePrice := 0\<rparr>"

subsection \<open>Sequences of calls on one indicator instance\<close>

text \<open>
  A caller of an indicator sees the values its calls return. \<open>calls\<close> runs a sequence
  of calls on an instance, given the three methods of its class, and returns what each
  call returned (\<open>reset\<close> returns nothing) together with the final state.
\<close>

datatype 'i call = Update 'i | GetValue | Reset

fun calls :: "('s \<Rightarrow> 'i \<Rightarrow> 'o \<times> 's) \<Rightarrow> ('s \<Rightarrow> 'o) \<Rightarrow> ('s \<Rightarrow> 's) \<Rightarrow> 's \<Rightarrow> 'i call list
    \<Rightarrow> 'o option list \<times> 's" where
  "calls upd gv rst s [] = ([], s)"
| "calls upd gv rst s (Update x # cs) =
     (let (v, s') = upd s x; (vs, s'') = calls upd gv rst s' cs in (Some v # vs, s''))"
| "calls upd gv rst s (GetValue # cs) =
     (let (vs, s'') = calls upd gv rst s cs in (Some (gv s) # vs, s''))"
| "calls upd gv rst s (Reset # cs) =
     (let (vs, s'') = calls upd gv rst (rst s) cs in (None # vs, s''))"

abbreviation EMA_calls :: "EMA \<Rightarrow> real call list \<Rightarrow> real option option list \<times> EMA" where
  "EMA_calls \<equiv> calls EMA_update EMA_getValue EMA_reset"

abbreviation RSI_calls :: "RSI \<Rightarrow> real call list \<Rightarrow> real option option list \<times> RSI" where
  "RSI_calls \<equiv> calls RSI_update RSI_getValue RSI_reset"

abbreviation ATR_calls :: "ATR \<Rightarrow> candle call list \<Rightarrow> real option option list \<times> ATR" where
  "ATR_calls \<equiv> calls ATR_update ATR_getValue ATR_reset"

abbreviation BollingerBands_calls ::
    "BollingerBands \<Rightarrow> real call list \<Rightarrow> bands option option list \<times> BollingerBands" where
  "BollingerBands_calls \<equiv> calls BollingerBands_update BollingerBands_getValue BollingerBands_reset"

abbreviation VWAP_calls ::
    "VWAP \<Rightarrow> (real \<times> real option) call list \<Rightarrow> real option option list \<times> VWAP" where
  "VWAP_calls \<equiv> calls VWAP_update VWAP_getValue VWAP_reset"

text \<open>
  \<open>feed f s xs\<close> calls the method \<open>f\<close> once per element of \<open>xs\<close>, in order, on an
  object that starts in state \<open>s\<close>; it returns what the calls returned and the final
  state.
\<close>

fun feed :: "('s \<Rightarrow> 'i \<Rightarrow> 'o \<times> 's) \<Rightarrow> 's \<Rightarrow> 'i list \<Rightarrow> 'o list \<times> 's" where
  "feed f s [] = ([], s)"
| "feed f s (x # xs) = (let (v, s') = f s x; (vs, s'') = feed f s' xs in (v # vs, s''))"

section \<open>Strategies (src/engine/StrategyEngine.js)\<close>

text \<open>A tick; \<open>tick_ts\<close> is the time value of its (valid) \<open>Date\<close>.\<close>

record tick =
  tick_symbol :: string
  tick_ts :: int
  tick_price :: real

datatype side = long | short

datatype crossover = bullish | bearish

record 'd signal =
  side :: side
  confidence :: real
  details :: 'd

datatype error = Error string

subsection \<open>EMA crossover\<close>

record EMACross_details =
  det_fastEMA :: real
  det_slowEMA :: real
  det_crossover :: crossover
  det_price :: real

text \<open>The parameter object; a missing parameter is \<open>None\<close> and takes its default.\<close>

record EMACross_params =
  param_fastPeriod :: "real option"
  param_slowPeriod :: "real option"

record EMACrossStrategy =
  ecs_params :: EMACross_params
  ind_fastEMA :: EMA
  ind_slowEMA :: EMA
  lastCrossover :: "crossover option"

definition EMACrossStrategy_new :: "EMACross_params \<Rightarrow> EMACrossStrategy" where
  "EMACrossStrategy_new params =
     (let fastPeriod = (case param_fastPeriod params of None \<Rightarrow> 12 | Some v \<Rightarrow> v);
          slowPeriod = (case param_slowPeriod params of None \<Rightarrow> 26 | Some v \<Rightarrow> v)
      in \<lparr>ecs_params = params, ind_fastEMA = EMA_new fastPeriod,
          ind_slowEMA = EMA_new slowPeriod, lastCrossover = None\<rparr>)"

definition EMACrossStrategy_evaluate ::
    "EMACrossStrategy \<Rightarrow> tick \<times> candle option
       \<Rightarrow> EMACross_details signal option \<times> EMACrossStrategy" where
  "EMACrossStrategy_evaluate s tc =
     (let price = tick_price (fst tc);
          (fastEMA, f') = EMA_update (ind_fastEMA s) price;
          (slowEMA, l') = EMA_update (ind_slowEMA s) price;
          s1 = s\<lparr>ind_fastEMA := f', ind_slowEMA := l'\<rparr>
      in case (fastEMA, slowEMA) of
           (Some fastEMA, Some slowEMA) \<Rightarrow>
             (let currentCrossover = (if fastEMA > slowEMA then bullish else bearish)
              in if lastCrossover s1 \<noteq> None \<and> lastCrossover s1 \<noteq> Some currentCrossover
                 then (Some \<lparr>side = (if currentCrossover = bullish then long else short),
                             confidence = \<bar>fastEMA - slowEMA\<bar> / slowEMA,
                             details = \<lparr>det_fastEMA = fastEMA, det_slowEMA = slowEMA,
                                        det_crossover = currentCrossover, det_price = price\<rparr>\<rparr>,
                       s1\<lparr>lastCrossover := Some currentCrossover\<rparr>)
                 else (None, s1\<lparr>lastCrossover := Some currentCrossover\<rparr>))
         | _ \<Rightarrow> (None, s1))"

text \<open>The argument pair of one \<open>evaluate\<close> call for a price.\<close>

definition price_tick :: "string \<Rightarrow> int \<Rightarrow> candle option \<Rightarrow> real \<Rightarrow> tick \<times> candle option" where
  "price_tick symb ts c price = (\<lparr>tick_symbol = symb, tick_ts = ts, tick_price = price\<rparr>, c)"

text \<open>The signals among the values a sequence of \<open>evaluate\<close> calls returned.\<close>

definition emitted :: "'a option list \<Rightarrow> 'a list" where
  "emitted outs = List.map_filter (\<lambda>v. v) outs"

text \<open>One \<open>evaluate\<close> call on a freshly constructed strategy.\<close>

definition evaluate_fresh ::
    "EMACross_params \<Rightarrow> tick \<times> candle option \<Rightarrow> EMACross_details signal option" where
  "evaluate_fresh params tc = fst (EMACrossStrategy_evaluate (EMACrossStrategy_new params) tc)"

subsection \<open>The strategy engine\<close>

text \<open>
  A strategy object, as \<open>evaluateStrategies\<close> sees it: its \<open>id\<close>, its \<open>name\<close> and its
  \<open>evaluate\<close> method, which reads and writes the private state of the object and
  either throws or returns a signal or \<open>null\<close>. The strategies of a list are distinct
  objects.
\<close>

record ('s, 'd) strategy =
  strategy_id :: string
  strategy_name :: string
  strategy_state :: 's
  strategy_evaluate :: "'s \<Rightarrow> tick \<Rightarrow> candle option \<Rightarrow> (error + 'd signal option) \<times> 's"

text \<open>
  The row inserted into the table \<open>signals\<close>, and what the awaited insert can do:
  answer with the stored row (of which the code reads the \<open>id\<close>), answer with an
  error, or throw.
\<close>

record 'd signals_row =
  row_symbol :: string
  row_strategy_id :: string
  row_ts :: int
  row_side :: side
  row_confidence :: real
  row_details :: 'd

datatype insert_result = Inserted string | Insert_error string | Insert_throws string

text \<open>\<open>{ ...signal, id: data.id, strategy: strategy.name }\<close>\<close>

record 'd stored_signal = "'d signal" +
  signal_id :: string
  signal_strategy :: string

text \<open>
  The body of the \<open>try\<close> block for one strategy. The store is outside the repository:
  its answer to an insert is the parameter \<open>store\<close>. A signal is an object, and so
  is its \<open>details\<close>: \<open>if (signal)\<close> tests for \<open>null\<close>, and \<open>signal.details || {}\<close> is
  \<open>signal.details\<close>.
\<close>

definition try_evaluate ::
    "('d signals_row \<Rightarrow> insert_result) \<Rightarrow> tick \<Rightarrow> candle option \<Rightarrow> ('s, 'd) strategy
       \<Rightarrow> (error + 'd stored_signal option) \<times> ('s, 'd) strategy" where
  "try_evaluate store tick candle strategy =
     (let (r, st) = strategy_evaluate strategy (strategy_state strategy) tick candle;
          strategy' = strategy\<lparr>strategy_state := st\<rparr>
      in case r of
           Inl e \<Rightarrow> (Inl e, strategy')
         | Inr None \<Rightarrow> (Inr None, strategy')
         | Inr (Some signal) \<Rightarrow>
             (case store \<lparr>row_symbol = tick_symbol tick, row_strategy_id = strategy_id strategy,
                            row_ts = tick_ts tick, row_side = side signal,
                            row_confidence = confidence signal, row_details = details signal\<rparr> of
                Insert_throws e \<Rightarrow> (Inl (Error e), strategy')
              | Insert_error e \<Rightarrow> (Inr None, strategy')
              | Inserted data_id \<Rightarrow>
                  (Inr (Some \<lparr>side = side signal, confidence = confidence signal,
                              details = details signal, signal_id = data_id,
                              signal_strategy = strategy_name strategy\<rparr>), strategy')))"

text \<open>
  The loop of \<open>evaluateStrategies\<close>, with the array \<open>signals\<close> as accumulator; the
  \<open>catch\<close> clause logs the error and the loop goes on. The result is the array
  returned, or the error with which the call would fail, together with the strategy
  objects after the call.
\<close>

fun evaluateStrategies_loop ::
    "('d signals_row \<Rightarrow> insert_result) \<Rightarrow> tick \<Rightarrow> candle option \<Rightarrow> ('s, 'd) strategy list
       \<Rightarrow> 'd stored_signal list \<Rightarrow> 'd stored_signal list \<times> ('s, 'd) strategy list" where
  "evaluateStrategies_loop store tick candle [] signals = (signals, [])"
| "evaluateStrategies_loop store tick candle (strategy # rest) signals =
     (let (r, strategy') = try_evaluate store tick candle strategy;
          signals' = (case r of
                        Inl e \<Rightarrow> signals
                      | Inr None \<Rightarrow> signals
                      | Inr (Some s) \<Rightarrow> signals @ [s]);
          (result, rest') = evaluateStrategies_loop store tick candle rest signals'
      in (result, strategy' # rest'))"

definition evaluateStrategies ::
    "('d signals_row \<Rightarrow> insert_result) \<Rightarrow> tick \<Rightarrow> candle option \<Rightarrow> ('s, 'd) strategy list
       \<Rightarrow> (error + 'd stored_signal list) \<times> ('s, 'd) strategy list" where
  "evaluateStrategies store tick candle strategies =
     (let (signals, strategies') = evaluateStrategies_loop store tick candle strategies []
      in (Inr signals, strategies'))"

text \<open>
  \<open>createStrategy\<close>. The registry is the \<open>Map\<close> from names to strategy classes; a class
  is its constructor. The answer of the store to the insert into \<open>strategies\<close> is the
  parameter \<open>store\<close>.
\<close>

record 's created_strategy =
  created_id :: string
  created_name :: string
  created_instance :: 's

definition registerStrategy ::
    "(string \<rightharpoonup> ('p \<Rightarrow> 's)) \<Rightarrow> string \<Rightarrow> ('p \<Rightarrow> 's) \<Rightarrow> (string \<rightharpoonup> ('p \<Rightarrow> 's))" where
  "registerStrategy strategies name strategyClass = strategies(name \<mapsto> strategyClass)"

definition createStrategy ::
    "(string \<rightharpoonup> ('p \<Rightarrow> 's)) \<Rightarrow> (string \<times> 'p \<times> string \<Rightarrow> insert_result)
       \<Rightarrow> string \<Rightarrow> 'p \<Rightarrow> string \<Rightarrow> error + 's created_strategy" where
  "createStrategy strategies store name params userId =
     (case strategies name of
        None \<Rightarrow> Inl (Error (''Strategy '' @ name @ '' not found''))
      | Some StrategyClass \<Rightarrow>
          (case store (userId, params, name) of
             Insert_throws e \<Rightarrow> Inl (Error e)
           | Insert_error e \<Rightarrow> Inl (Error e)
           | Inserted data_id \<Rightarrow>
               Inr \<lparr>created_id = data_id, created_name = name,
                    created_instance = StrategyClass params\<rparr>))"

section \<open>The boundary scheduler (src/engine/Scheduler.js)\<close>

definition timeframes :: "(string \<times> int) list" where
  "timeframes =
     [(''1s'', 1000), (''5s'', 5000), (''15s'', 15000), (''30s'', 30000), (''1m'', 60000),
      (''5m'', 300000), (''15m'', 900000), (''30m'', 1800000), (''1h'', 3600000),
      (''4h'', 14400000), (''1d'', 86400000)]"

text \<open>
  \<open>getNextCandleBoundary(currentTime, intervalMs)\<close>, on the time value of
  \<open>currentTime\<close>; the result is the time value of the \<open>Date\<close> returned.
\<close>

definition getNextCandleBoundary :: "int \<Rightarrow> int \<Rightarrow> int" where
  "getNextCandleBoundary currentTime intervalMs =
     (let timestamp = currentTime;
          remainder = js_rem timestamp intervalMs;
          nextBoundaryTime = timestamp - remainder + intervalMs
      in nextBoundaryTime)"

text \<open>
  A callback given to the scheduler is user code. The model keeps of it the calls it
  makes to the scheduler when it runs; a call that throws ends the callback.
\<close>

datatype callback = Callback "api_call list"
  and api_call =
    ScheduleAtCandleBoundary string string callback "real option"
  | CancelJob string
  | CancelAllJobs

fun callback_calls :: "callback \<Rightarrow> api_call list" where
  "callback_calls (Callback cs) = cs"

record job =
  job_timeoutId :: nat
  job_nextExecution :: date

text \<open>
  A pending timeout of the host: the delay given to \<open>setTimeout\<close> and the variables
  that the function given to it closes over. \<open>timer_boundary\<close> is \<open>nextBoundary\<close> or
  \<open>nextNextBoundary\<close>, according to the branch of \<open>scheduleNext\<close> that armed it.
\<close>

record timer =
  timer_jobId :: string
  timer_symbol :: string
  timer_timeframe :: string
  timer_callback :: callback
  timer_intervalMs :: jsval
  timer_offset :: real
  timer_boundary :: date
  timer_delay :: "real option"

record timing_error =
  te_symbol :: string
  te_timeframe :: string
  te_expectedTime :: date
  te_actualTime :: int
  te_errorMs :: "int option"
  te_timestamp :: int

text \<open>The object a callback is called with.\<close>

record callback_data =
  cd_symbol :: string
  cd_timeframe :: string
  cd_expectedTime :: date
  cd_actualTime :: int
  cd_timingError :: "int option"
  cd_tick :: "tick option"

text \<open>
  The scheduler (\<open>jobs\<close>, \<open>timingErrors\<close>) and what it runs in: the pending timeouts
  of the host and the next identifier \<open>setTimeout\<close> will return; what \<open>Date.now()\<close>,
  \<open>realtimeClient.getServerTime().getTime()\<close> and \<open>realtimeClient.getTickBuffer\<close>
  return at present; the job identifiers that \<open>scheduleAtCandleBoundary\<close> has
  returned so far; and the callback invocations made so far, each with the job
  identifier of the timeout that made it. \<open>jobs\<close> is a \<open>Map\<close>, kept as the list of
  its entries in insertion order.
\<close>

record world =
  jobs :: "(string \<times> job) list"
  timingErrors :: "timing_error list"
  timeouts :: "nat \<rightharpoonup> timer"
  nextTimeoutId :: nat
  env_dateNow :: int
  env_serverTime :: int
  env_tickBuffers :: "string \<Rightarrow> tick list"
  issued :: "string list"
  invoked :: "(string \<times> callback_data) list"

definition Scheduler_new :: "int \<Rightarrow> int \<Rightarrow> world" where
  "Scheduler_new dateNow serverTime =
     \<lparr>jobs = [], timingErrors = [], timeouts = Map.empty, nextTimeoutId = 1,
      env_dateNow = dateNow, env_serverTime = serverTime, env_tickBuffers = (\<lambda>symbol. []),
      issued = [], invoked = []\<rparr>"

definition setTimeout :: "world \<Rightarrow> timer \<Rightarrow> nat \<times> world" where
  "setTimeout w tm =
     (nextTimeoutId w,
      w\<lparr>timeouts := (timeouts w)(nextTimeoutId w \<mapsto> tm), nextTimeoutId := nextTimeoutId w + 1\<rparr>)"

definition clearTimeout :: "world \<Rightarrow> nat \<Rightarrow> world" where
  "clearTimeout w timeoutId = w\<lparr>timeouts := (timeouts w)(timeoutId := None)\<rparr>"

text \<open>
  \<open>scheduleNext\<close>, the closure made by \<open>scheduleAtCandleBoundary\<close>; its captured
  variables are arguments. When \<open>intervalMs\<close> is not a number (it is then a member of
  \<open>Object.prototype\<close>, which passed the test \<open>!intervalMs\<close>), the boundary is an
  invalid date and \<open>delay\<close> is \<open>NaN\<close>, for which \<open>delay <= 0\<close> is false.
\<close>

definition scheduleNext ::
    "world \<Rightarrow> string \<Rightarrow> string \<Rightarrow> string \<Rightarrow> callback \<Rightarrow> jsval \<Rightarrow> real \<Rightarrow> world" where
  "scheduleNext w jobId symbol timeframe callback intervalMs offset =
     (let serverTime = env_serverTime w;
          closure = \<lparr>timer_jobId = jobId, timer_symbol = symbol, timer_timeframe = timeframe,
                     timer_callback = callback, timer_intervalMs = intervalMs,
                     timer_offset = offset, timer_boundary = Invalid_Date, timer_delay = None\<rparr>
      in case intervalMs of
           Num T \<Rightarrow>
             (let nextBoundary = getNextCandleBoundary serverTime T;
                  delay = real_of_int (nextBoundary - serverTime) - offset
              in if delay \<le> 0
                 then (let nextNextBoundary = nextBoundary + T;
                           nextDelay = real_of_int (nextNextBoundary - serverTime) - offset;
                           (timeoutId, w') =
                              setTimeout w (closure\<lparr>timer_boundary := Date nextNextBoundary,
                                                    timer_delay := Some (max 0 nextDelay)\<rparr>)
                       in w'\<lparr>jobs := AList.update jobId
                                 \<lparr>job_timeoutId = timeoutId,
                                  job_nextExecution = Date nextNextBoundary\<rparr> (jobs w')\<rparr>)
                 else (let (timeoutId, w') =
                              setTimeout w (closure\<lparr>timer_boundary := Date nextBoundary,
                                                    timer_delay := Some delay\<rparr>)
                       in w'\<lparr>jobs := AList.update jobId
                                 \<lparr>job_timeoutId = timeoutId,
                                  job_nextExecution = Date nextBoundary\<rparr> (jobs w')\<rparr>))
         | _ \<Rightarrow>
             (let (timeoutId, w') = setTimeout w closure
              in w'\<lparr>jobs := AList.update jobId
                        \<lparr>job_timeoutId = timeoutId, job_nextExecution = Invalid_Date\<rparr>
                        (jobs w')\<rparr>))"

definition scheduleAtCandleBoundary ::
    "world \<Rightarrow> string \<Rightarrow> string \<Rightarrow> callback \<Rightarrow> real option \<Rightarrow> error + string \<times> world" where
  "scheduleAtCandleBoundary w symbol timeframe callback options_offset =
     (let offset = (case options_offset of None \<Rightarrow> 5 | Some v \<Rightarrow> v);
          intervalMs = get_property timeframes timeframe
      in if \<not> truthy intervalMs
         then Inl (Error (''Invalid timeframe: '' @ timeframe))
         else (let jobId = symbol @ ''_'' @ timeframe @ ''_'' @ js_string_of_int (env_dateNow w)
               in Inr (jobId,
                       scheduleNext (w\<lparr>issued := issued w @ [jobId]\<rparr>) jobId symbol timeframe
                         callback intervalMs offset)))"

definition cancelJob :: "world \<Rightarrow> string \<Rightarrow> bool \<times> world" where
  "cancelJob w jobId =
     (case map_of (jobs w) jobId of
        Some job \<Rightarrow>
          (let w1 = clearTimeout w (job_timeoutId job)
           in (True, w1\<lparr>jobs := AList.delete jobId (jobs w1)\<rparr>))
      | None \<Rightarrow> (False, w))"

definition cancelAllJobs :: "world \<Rightarrow> world" where
  "cancelAllJobs w =
     (let w1 = foldl (\<lambda>v entry. clearTimeout v (job_timeoutId (snd entry))) w (jobs w)
      in w1\<lparr>jobs := []\<rparr>)"

text \<open>One call to the scheduler; \<open>Inl\<close> when it throws.\<close>

fun api :: "world \<Rightarrow> api_call \<Rightarrow> error + world" where
  "api w (ScheduleAtCandleBoundary symbol timeframe callback options_offset) =
     (case scheduleAtCandleBoundary w symbol timeframe callback options_offset of
        Inl e \<Rightarrow> Inl e
      | Inr (jobId, w') \<Rightarrow> Inr w')"
| "api w (CancelJob jobId) = Inr (snd (cancelJob w jobId))"
| "api w CancelAllJobs = Inr (cancelAllJobs w)"

text \<open>
  Running a callback: its calls in order, up to the first that throws; the exception
  is caught by \<open>executeAtBoundary\<close>.
\<close>

fun run_callback :: "world \<Rightarrow> api_call list \<Rightarrow> world" where
  "run_callback w [] = w"
| "run_callback w (c # cs) =
     (case api w c of Inl e \<Rightarrow> w | Inr w' \<Rightarrow> run_callback w' cs)"

text \<open>
  \<open>findTickAtBoundary\<close>: the scan from the newest entry backward for a tick with
  \<open>tick.ts <= boundaryTime\<close>; the comparison is false for an invalid date.
\<close>

definition findTickAtBoundary :: "tick list \<Rightarrow> date \<Rightarrow> tick option" where
  "findTickAtBoundary tickBuffer boundaryTime =
     (if length tickBuffer = 0 then None
      else (case boundaryTime of
              Invalid_Date \<Rightarrow> None
            | Date b \<Rightarrow> List.find (\<lambda>tick. tick_ts tick \<le> b) (rev tickBuffer)))"

text \<open>
  \<open>executeAtBoundary\<close>. The job identifier is not an argument in the source; it is
  passed here only to label the invocation recorded in \<open>invoked\<close>.
\<close>

definition executeAtBoundary ::
    "world \<Rightarrow> string \<Rightarrow> string \<Rightarrow> string \<Rightarrow> callback \<Rightarrow> date \<Rightarrow> world" where
  "executeAtBoundary w jobId symbol timeframe callback expectedTime =
     (let actualTime = env_serverTime w;
          timingError = (case expectedTime of
                           Date e \<Rightarrow> Some (actualTime - e)
                         | Invalid_Date \<Rightarrow> None);
          w1 = w\<lparr>timingErrors := timingErrors w @
                     [\<lparr>te_symbol = symbol, te_timeframe = timeframe,
                       te_expectedTime = expectedTime, te_actualTime = actualTime,
                       te_errorMs = timingError, te_timestamp = env_dateNow w\<rparr>]\<rparr>;
          w2 = (if length (timingErrors w1) > 1000
                then w1\<lparr>timingErrors := shift (timingErrors w1)\<rparr> else w1);
          tickBuffer = env_tickBuffers w2 symbol;
          boundaryTick = findTickAtBoundary tickBuffer expectedTime;
          w3 = w2\<lparr>invoked := invoked w2 @
                     [(jobId, \<lparr>cd_symbol = symbol, cd_timeframe = timeframe,
                               cd_expectedTime = expectedTime, cd_actualTime = actualTime,
                               cd_timingError = timingError, cd_tick = boundaryTick\<rparr>)]\<rparr>
      in run_callback w3 (callback_calls callback))"

text \<open>The function given to \<open>setTimeout\<close>, run by the host when the timeout fires.\<close>

definition timeout_function :: "world \<Rightarrow> timer \<Rightarrow> world" where
  "timeout_function w tm =
     (let w1 = executeAtBoundary w (timer_jobId tm) (timer_symbol tm) (timer_timeframe tm)
                 (timer_callback tm) (timer_boundary tm)
      in if map_of (jobs w1) (timer_jobId tm) \<noteq> None
         then scheduleNext w1 (timer_jobId tm) (timer_symbol tm) (timer_timeframe tm)
                (timer_callback tm) (timer_intervalMs tm) (timer_offset tm)
         else w1)"

text \<open>
  What can happen to the scheduler: the application calls it; the host fires a pending
  timeout, which is thereby no longer pending; the clocks or a tick buffer change.
\<close>

datatype event =
    Call api_call
  | Fire nat
  | Clock int int
  | Ticks string "tick list"

fun step :: "world \<Rightarrow> event \<Rightarrow> world" where
  "step w (Call c) = (case api w c of Inl e \<Rightarrow> w | Inr w' \<Rightarrow> w')"
| "step w (Fire timeoutId) =
     (case timeouts w timeoutId of
        None \<Rightarrow> w
      | Some tm \<Rightarrow> timeout_function (w\<lparr>timeouts := (timeouts w)(timeoutId := None)\<rparr>) tm)"
| "step w (Clock dateNow serverTime) = w\<lparr>env_dateNow := dateNow, env_serverTime := serverTime\<rparr>"
| "step w (Ticks symbol buffer) = w\<lparr>env_tickBuffers := (env_tickBuffers w)(symbol := buffer)\<rparr>"

definition run_events :: "world \<Rightarrow> event list \<Rightarrow> world" where
  "run_events w events = foldl step w events"

section \<open>The candle builder (src/workers/indicators.worker.js)\<close>

text \<open>
  \<open>getTimeframeMs\<close>: the table is that of the scheduler; a falsy entry is replaced by
  60000.
\<close>

definition getTimeframeMs :: "string \<Rightarrow> jsval" where
  "getTimeframeMs timeframe =
     (let v = get_property timeframes timeframe in if truthy v then v else Num 60000)"

text \<open>
  \<open>getMsToTimeframe\<close>: the table keyed by duration; a value that is not a number
  prints as a text that is no key of it, nor a name of \<open>Object.prototype\<close>.
\<close>

definition getMsToTimeframe :: "jsval \<Rightarrow> string" where
  "getMsToTimeframe ms =
     (case ms of
        Num n \<Rightarrow> (case map_of (map (\<lambda>(name, duration). (duration, name)) timeframes) n of
                    Some name \<Rightarrow> name
                  | None \<Rightarrow> ''1m'')
      | _ \<Rightarrow> ''1m'')"

text \<open>
  \<open>getCandleStart\<close>, on the time value of the tick's timestamp. With a \<open>timeframeMs\<close>
  that is not a number, or is 0, the remainder is \<open>NaN\<close> and the date is invalid.
\<close>

definition getCandleStart :: "int \<Rightarrow> jsval \<Rightarrow> date" where
  "getCandleStart timestamp timeframeMs =
     (case timeframeMs of
        Num T \<Rightarrow>
          (if T = 0 then Invalid_Date
           else (let ts = timestamp; remainder = js_rem ts T in Date (ts - remainder)))
      | _ \<Rightarrow> Invalid_Date)"

text \<open>\<open>new Date(candleStart.getTime() + timeframeMs)\<close>\<close>

definition date_plus :: "date \<Rightarrow> jsval \<Rightarrow> date" where
  "date_plus d ms =
     (case (d, ms) of (Date t, Num n) \<Rightarrow> Date (t + n) | _ \<Rightarrow> Invalid_Date)"

text \<open>\<open>a.getTime() !== b.getTime()\<close>; \<open>NaN\<close> differs from every number and from itself.\<close>

definition getTime_differs :: "date \<Rightarrow> date \<Rightarrow> bool" where
  "getTime_differs a b = (case (a, b) of (Date x, Date y) \<Rightarrow> x \<noteq> y | _ \<Rightarrow> True)"

definition createNewCandle :: "tick \<Rightarrow> date \<Rightarrow> jsval \<Rightarrow> candle" where
  "createNewCandle tick candleStart timeframeMs =
     \<lparr>candle_symbol = tick_symbol tick,
      candle_frame = getMsToTimeframe timeframeMs,
      candle_open = tick_price tick,
      candle_high = tick_price tick,
      candle_low = tick_price tick,
      candle_close = tick_price tick,
      candle_ts_open = candleStart,
      candle_ts_close = date_plus candleStart timeframeMs,
      candle_volume = 1,
      candle_tickCount = 1\<rparr>"

definition updateCandle :: "candle \<Rightarrow> tick \<Rightarrow> candle" where
  "updateCandle candle tick =
     candle\<lparr>candle_high := max (candle_high candle) (tick_price tick),
            candle_low := min (candle_low candle) (tick_price tick),
            candle_close := tick_price tick,
            candle_volume := candle_volume candle + 1,
            candle_tickCount := candle_tickCount candle + 1\<rparr>"

record builder =
  currentCandle :: "candle option"
  timeframeMs :: jsval

text \<open>The worker; of its two maps the claims concern \<open>candleBuilders\<close>.\<close>

record IndicatorWorker =
  candleBuilders :: "string \<rightharpoonup> builder"

definition IndicatorWorker_new :: IndicatorWorker where
  "IndicatorWorker_new = \<lparr>candleBuilders = Map.empty\<rparr>"

record build_result =
  completed :: "candle option"
  current :: candle
  isNewCandle :: bool

definition buildCandle ::
    "IndicatorWorker \<Rightarrow> string \<Rightarrow> string \<Rightarrow> tick \<Rightarrow> build_result \<times> IndicatorWorker" where
  "buildCandle w symbol timeframe tick =
     (let key = symbol @ ''_'' @ timeframe;
          builder = (case candleBuilders w key of
                       None \<Rightarrow> \<lparr>currentCandle = None, timeframeMs = getTimeframeMs timeframe\<rparr>
                     | Some b \<Rightarrow> b);
          candleStart = getCandleStart (tick_ts tick) (timeframeMs builder)
      in case currentCandle builder of
           None \<Rightarrow>
             (let new = createNewCandle tick candleStart (timeframeMs builder)
              in (\<lparr>completed = None, current = new, isNewCandle = True\<rparr>,
                  w\<lparr>candleBuilders := (candleBuilders w)(key \<mapsto> builder\<lparr>currentCandle := Some new\<rparr>)\<rparr>))
         | Some cur \<Rightarrow>
             (if getTime_differs (candle_ts_open cur) candleStart
              then (let completedCandle = cur;
                        new = createNewCandle tick candleStart (timeframeMs builder)
                    in (\<lparr>completed = Some completedCandle, current = new, isNewCandle = True\<rparr>,
                        w\<lparr>candleBuilders :=
                            (candleBuilders w)(key \<mapsto> builder\<lparr>currentCandle := Some new\<rparr>)\<rparr>))
              else (let upd = updateCandle cur tick
                    in (\<lparr>completed = None, current = upd, isNewCandle = False\<rparr>,
                        w\<lparr>candleBuilders :=
                            (candleBuilders w)(key \<mapsto> builder\<lparr>currentCandle := Some upd\<rparr>)\<rparr>))))"

text \<open>The calls of one stream: \<open>buildCandle\<close> for a fixed symbol and timeframe.\<close>

definition ingest ::
    "string \<Rightarrow> string \<Rightarrow> IndicatorWorker \<Rightarrow> tick \<Rightarrow> build_result \<times> IndicatorWorker" where
  "ingest symbol timeframe w tick = buildCandle w symbol timeframe tick"

section \<open>The clock of the feed client (src/data/websocketClient.js)\<close>

text \<open>The fields of \<open>WebSocketClient\<close> that the clock synchronisation uses.\<close>

record WebSocketClient =
  clockOffset :: real
  isConnected :: bool
  lastPingTime :: "int option"

definition WebSocketClient_new :: WebSocketClient where
  "WebSocketClient_new = \<lparr>clockOffset = 0, isConnected = False, lastPingTime = None\<rparr>"

text \<open>\<open>getServerTime\<close> at the moment \<open>Date.now()\<close> returns \<open>now\<close>: the time value of the result.\<close>

definition getServerTime :: "WebSocketClient \<Rightarrow> int \<Rightarrow> int" where
  "getServerTime c now = Date_new (real_of_int now + clockOffset c)"

definition syncClock :: "WebSocketClient \<Rightarrow> int \<Rightarrow> WebSocketClient" where
  "syncClock c now =
     (if \<not> isConnected c then c
      else (let clientTime = now in c\<lparr>lastPingTime := Some clientTime\<rparr>))"

text \<open>
  \<open>handlePong\<close> for a message whose \<open>server_time\<close> has the time value \<open>server_time\<close>,
  handled when \<open>Date.now()\<close> returns \<open>now\<close>. The test \<open>!this.lastPingTime\<close> holds for
  \<open>null\<close> and for 0.
\<close>

definition handlePong :: "WebSocketClient \<Rightarrow> int \<Rightarrow> int \<Rightarrow> WebSocketClient" where
  "handlePong c server_time now =
     (case lastPingTime c of
        None \<Rightarrow> c
      | Some lastPing \<Rightarrow>
          (if lastPing = 0 then c
           else (let rtt = now - lastPing;
                     serverTime = server_time
                 in c\<lparr>clockOffset := real_of_int serverTime - real_of_int now + real_of_int rtt / 2\<rparr>)))"

definition updateClockOffset :: "WebSocketClient \<Rightarrow> int \<Rightarrow> int \<Rightarrow> WebSocketClient" where
  "updateClockOffset c server_time now =
     (let serverTime = server_time; clientTime = now
      in c\<lparr>clockOffset := real_of_int serverTime - real_of_int clientTime\<rparr>)"

text \<open>
  The messages and calls that reach these fields. The heartbeat timer sends a ping
  like \<open>syncClock\<close> does, but writes none of the fields; the pong that answers it is
  handled by \<open>handlePong\<close> like any other.
\<close>

datatype client_event =
    Opened
  | Closed
  | SyncClock int
  | Heartbeat int
  | Pong int int
  | Server_time int int

fun client_step :: "WebSocketClient \<Rightarrow> client_event \<Rightarrow> WebSocketClient" where
  "client_step c Opened = c\<lparr>isConnected := True\<rparr>"
| "client_step c Closed = c\<lparr>isConnected := False\<rparr>"
| "client_step c (SyncClock now) = syncClock c now"
| "client_step c (Heartbeat now) = c"
| "client_step c (Pong server_time now) = handlePong c server_time now"
| "client_step c (Server_time server_time now) = updateClockOffset c server_time now"

section \<open>Invariants used in the proofs\<close>

text \<open>
  The state of an RSI instance once a first price has been seen: the two windows have
  the same length, at most the period, and hold no negative number.
\<close>

definition RSI_inv :: "nat \<Rightarrow> RSI \<Rightarrow> bool" where
  "RSI_inv P s \<longleftrightarrow>
     rsi_period s = real P \<and> length (rsi_losses s) = length (rsi_gains s) \<and>
     length (rsi_gains s) \<le> P \<and> (\<forall>g\<in>set (rsi_gains s). 0 \<le> g) \<and>
     (\<forall>l\<in>set (rsi_losses s). 0 \<le> l) \<and> rsi_lastPrice s \<noteq> None"


text \<open>
  A candle of duration \<open>T\<close> that aggregates the ticks \<open>period\<close>, in their order of arrival.
\<close>

definition summarises :: "int \<Rightarrow> candle \<Rightarrow> tick list \<Rightarrow> bool" where
  "summarises T c period \<longleftrightarrow>
     period \<noteq> [] \<and>
     candle_open c = tick_price (hd period) \<and>
     candle_close c = tick_price (last period) \<and>
     (\<forall>t\<in>set period. candle_low c \<le> tick_price t \<and> tick_price t \<le> candle_high c) \<and>
     (\<forall>t\<in>set period. candle_ts_open c = Date (tick_ts t - js_rem (tick_ts t) T)) \<and>
     candle_ts_close c = date_plus (candle_ts_open c) (Num T)"


text \<open>
  Every pending timeout belongs to an issued job identifier and is the timeout that
  the entry of that job in \<open>jobs\<close> names; timeout identifiers are handed out in
  increasing order.
\<close>

definition timers_registered :: "world \<Rightarrow> bool" where
  "timers_registered w \<longleftrightarrow>
     (\<forall>i tm. timeouts w i = Some tm \<longrightarrow>
        i < nextTimeoutId w \<and> timer_jobId tm \<in> set (issued w) \<and>
        map_option job_timeoutId (map_of (jobs w) (timer_jobId tm)) = Some i)"

definition no_timer_for :: "world \<Rightarrow> string \<Rightarrow> bool" where
  "no_timer_for w jobId \<longleftrightarrow> (\<forall>i tm. timeouts w i = Some tm \<longrightarrow> timer_jobId tm \<noteq> jobId)"

text \<open>
  What a call to the scheduler leaves alone: identifiers are only added to \<open>issued\<close>,
  and a job identifier issued before that has no pending timeout, or no entry in
  \<open>jobs\<close>, still has none afterwards.
\<close>

definition leaves_old_jobs :: "world \<Rightarrow> world \<Rightarrow> bool" where
  "leaves_old_jobs w w' \<longleftrightarrow>
     (\<exists>new. issued w' = issued w @ new) \<and>
     (\<forall>k\<in>set (issued w). no_timer_for w k \<longrightarrow> no_timer_for w' k) \<and>
     (\<forall>k\<in>set (issued w). map_of (jobs w) k = None \<longrightarrow> map_of (jobs w') k = None)"

text \<open>The events of the feed client that write the clock offset.\<close>

fun writes_offset :: "client_event \<Rightarrow> bool" where
  "writes_offset (Pong server_time now) = True"
| "writes_offset (Server_time server_time now) = True"
| "writes_offset e = False"

text \<open>
  What one strategy adds to the result of \<open>evaluateStrategies\<close>, and the strategy
  object after its \<open>evaluate\<close> has been called once: the two functions against which
  the loop is compared.
\<close>

definition contribution ::
    "('d signals_row \<Rightarrow> insert_result) \<Rightarrow> tick \<Rightarrow> candle option \<Rightarrow> ('s, 'd) strategy
       \<Rightarrow> 'd stored_signal option" where
  "contribution store tick candle strategy =
     (case fst (strategy_evaluate strategy (strategy_state strategy) tick candle) of
        Inl e \<Rightarrow> None
      | Inr None \<Rightarrow> None
      | Inr (Some signal) \<Rightarrow>
          (case store \<lparr>row_symbol = tick_symbol tick, row_strategy_id = strategy_id strategy,
                         row_ts = tick_ts tick, row_side = side signal,
                         row_confidence = confidence signal, row_details = details signal\<rparr> of
             Insert_throws e \<Rightarrow> None
           | Insert_error e \<Rightarrow> None
           | Inserted data_id \<Rightarrow>
               Some \<lparr>side = side signal, confidence = confidence signal,
                     details = details signal, signal_id = data_id,
                     signal_strategy = strategy_name strategy\<rparr>))"

definition evaluated :: "tick \<Rightarrow> candle option \<Rightarrow> ('s, 'd) strategy \<Rightarrow> ('s, 'd) strategy" where
  "evaluated tick candle strategy =
     strategy\<lparr>strategy_state :=
                snd (strategy_evaluate strategy (strategy_state strategy) tick candle)\<rparr>"

text \<open>
  Strategy objects for the examples: an EMA crossover strategy in a given state, and
  an instance of \<open>BaseStrategy\<close>, whose \<open>evaluate\<close> throws. A store that accepts every
  insert, and one that answers every insert with an error.
\<close>

definition EMACross_strategy ::
    "string \<Rightarrow> EMACrossStrategy \<Rightarrow> (EMACrossStrategy, EMACross_details) strategy" where
  "EMACross_strategy ident st =
     \<lparr>strategy_id = ident, strategy_name = ''EMA_Cross'', strategy_state = st,
      strategy_evaluate =
        (\<lambda>s tick candle. let (r, s') = EMACrossStrategy_evaluate s (tick, candle) in (Inr r, s'))\<rparr>"

definition BaseStrategy ::
    "string \<Rightarrow> EMACrossStrategy \<Rightarrow> (EMACrossStrategy, EMACross_details) strategy" where
  "BaseStrategy ident st =
     \<lparr>strategy_id = ident, strategy_name = ''Base'', strategy_state = st,
      strategy_evaluate =
        (\<lambda>s tick candle. (Inl (Error ''evaluate method must be implemented''), s))\<rparr>"

definition store_up :: "'d signals_row \<Rightarrow> insert_result" where
  "store_up row = Inserted (''sig-'' @ row_strategy_id row)"

definition store_down :: "'d signals_row \<Rightarrow> insert_result" where
  "store_down row = Insert_error ''connection refused''"

text \<open>An EMA crossover strategy (fast 2, slow 3) that has seen the price 1.\<close>

definition after_price_1 :: EMACrossStrategy where
  "after_price_1 =
     snd (EMACrossStrategy_evaluate
            (EMACrossStrategy_new \<lparr>param_fastPeriod = Some 2, param_slowPeriod = Some 3\<rparr>)
            (price_tick ''EURUSD'' 0 None 1))"

section \<open>Resetting an indicator\<close>

text \<open>
  No method of an indicator writes its constructor parameters, so after any sequence
  of calls they are those of the fresh instance.
\<close>

lemma calls_invariant:
  assumes "I s"
    and "\<And>s x. I s \<Longrightarrow> I (snd (upd s x))"
    and "\<And>s. I s \<Longrightarrow> I (rst s)"
  shows "I (snd (calls upd gv rst s cs))"
  using assms(1)
proof (induction cs arbitrary: s)
  case Nil
  then show ?case by simp
next
  case (Cons c cs)
  show ?case
  proof (cases c)
    case (Update x)
    have "I (snd (upd s x))" using Cons.prems assms(2) by blast
    then have "I (snd (calls upd gv rst (snd (upd s x)) cs))" by (rule Cons.IH)
    then show ?thesis using Update by (simp add: split_beta)
  next
    case GetValue
    then show ?thesis using Cons.IH [OF Cons.prems] by (simp add: split_beta)
  next
    case Reset
    have "I (rst s)" using Cons.prems assms(3) by blast
    then have "I (snd (calls upd gv rst (rst s) cs))" by (rule Cons.IH)
    then show ?thesis using Reset by (simp add: split_beta)
  qed
qed

lemma EMA_reset_after_calls:
  "EMA_reset (snd (EMA_calls (EMA_new p) hist)) = EMA_new p"
proof -
  let ?I = "\<lambda>s. ema_period s = p \<and> ema_multiplier s = 2 / (p + 1)"
  have "?I (snd (EMA_calls (EMA_new p) hist))"
    by (rule calls_invariant)
       (auto simp: EMA_new_def EMA_update_def EMA_reset_def Let_def split: option.splits)
  then show ?thesis by (simp add: EMA_reset_def EMA_new_def)
qed

lemma RSI_reset_after_calls:
  "RSI_reset (snd (RSI_calls (RSI_new p) hist)) = RSI_new p"
proof -
  let ?I = "\<lambda>s. rsi_period s = p"
  have "?I (snd (RSI_calls (RSI_new p) hist))"
    by (rule calls_invariant)
       (auto simp: RSI_new_def RSI_update_def RSI_reset_def Let_def split: option.splits)
  then show ?thesis by (simp add: RSI_reset_def RSI_new_def)
qed

lemma ATR_reset_after_calls:
  "ATR_reset (snd (ATR_calls (ATR_new p) hist)) = ATR_new p"
proof -
  let ?I = "\<lambda>s. atr_period s = p"
  have "?I (snd (ATR_calls (ATR_new p) hist))"
    by (rule calls_invariant)
       (auto simp: ATR_new_def ATR_update_def ATR_reset_def Let_def split: option.splits)
  then show ?thesis by (simp add: ATR_reset_def ATR_new_def)
qed

lemma BollingerBands_reset_after_calls:
  "BollingerBands_reset (snd (BollingerBands_calls (BollingerBands_new p k) hist))
     = BollingerBands_new p k"
proof -
  let ?I = "\<lambda>s. bb_period s = p \<and> bb_stdDev s = k"
  have "?I (snd (BollingerBands_calls (BollingerBands_new p k) hist))"
    by (rule calls_invariant)
       (auto simp: BollingerBands_new_def BollingerBands_update_def BollingerBands_reset_def Let_def)
  then show ?thesis by (simp add: BollingerBands_reset_def BollingerBands_new_def)
qed

lemma VWAP_reset_any: "VWAP_reset s = VWAP_new"
  by (simp add: VWAP_reset_def VWAP_new_def)

text \<open>
  Claim C10. For each of the five indicator kinds, any constructor parameters and any
  earlier sequence of calls \<open>hist\<close> on a fresh instance: after \<open>reset()\<close>, every
  sequence \<open>cs\<close> of \<open>update\<close>, \<open>getValue\<close> and \<open>reset\<close> calls returns the same values
  as it does on a freshly constructed instance with the same parameters.
\<close>

theorem reset_restores_fresh_instance:
  "fst (EMA_calls (EMA_reset (snd (EMA_calls (EMA_new p) hist1))) cs1)
     = fst (EMA_calls (EMA_new p) cs1)
   \<and> fst (RSI_calls (RSI_reset (snd (RSI_calls (RSI_new p) hist2))) cs2)
     = fst (RSI_calls (RSI_new p) cs2)
   \<and> fst (ATR_calls (ATR_reset (snd (ATR_calls (ATR_new p) hist3))) cs3)
     = fst (ATR_calls (ATR_new p) cs3)
   \<and> fst (BollingerBands_calls
            (BollingerBands_reset (snd (BollingerBands_calls (BollingerBands_new p k) hist4))) cs4)
     = fst (BollingerBands_calls (BollingerBands_new p k) cs4)
   \<and> fst (VWAP_calls (VWAP_reset (snd (VWAP_calls VWAP_new hist5))) cs5)
     = fst (VWAP_calls VWAP_new cs5)"
  by (simp only: EMA_reset_after_calls RSI_reset_after_calls ATR_reset_after_calls
        BollingerBands_reset_after_calls VWAP_reset_any)


section \<open>RSI: warm-up, range and the all-gains case\<close>

lemma foldl_plus_sum_list: "foldl (\<lambda>sum x. sum + x) a xs = a + sum_list (xs::real list)"
  by (induction xs arbitrary: a) auto

lemma reduce_sum_sum_list: "reduce_sum xs = sum_list xs"
  by (simp add: reduce_sum_def foldl_plus_sum_list)

lemma RSI_value_range:
  assumes "0 < rsi_period s" "\<forall>g\<in>set (rsi_gains s). 0 \<le> g" "\<forall>l\<in>set (rsi_losses s). 0 \<le> l"
  shows "0 \<le> RSI_value s \<and> RSI_value s \<le> 100"
proof -
  define g where "g = reduce_sum (rsi_gains s) / rsi_period s"
  define l where "l = reduce_sum (rsi_losses s) / rsi_period s"
  have g: "0 \<le> g" using assms by (simp add: g_def reduce_sum_sum_list sum_list_nonneg)
  have l: "0 \<le> l" using assms by (simp add: l_def reduce_sum_sum_list sum_list_nonneg)
  have v: "RSI_value s = (if l = 0 then 100 else 100 - 100 / (1 + g / l))"
    by (simp add: RSI_value_def Let_def g_def l_def)
  show ?thesis
  proof (cases "l = 0")
    case True
    then show ?thesis by (simp add: v)
  next
    case False
    with l have "0 < l" by simp
    with g have rs: "0 \<le> g / l" by simp
    have "100 / (1 + g / l) \<le> 100" using rs by (simp add: divide_le_eq)
    moreover have "0 \<le> 100 / (1 + g / l)" using rs by simp
    ultimately show ?thesis using False by (simp add: v)
  qed
qed

lemma sum_list_all_zero: "\<forall>x\<in>set xs. x = 0 \<Longrightarrow> sum_list xs = (0::real)"
  by (induction xs) auto

lemma RSI_value_no_loss:
  assumes "\<forall>l\<in>set (rsi_losses s). l = 0"
  shows "RSI_value s = 100"
  using sum_list_all_zero [OF assms]
  by (simp add: RSI_value_def reduce_sum_sum_list Let_def)

lemma set_shift: "set (shift xs) \<subseteq> set xs"
  by (cases xs) (auto simp: shift_def)

lemma length_shift: "length (shift xs) = length xs - 1"
  by (cases xs) (auto simp: shift_def)

lemma RSI_update_step:
  assumes "RSI_inv P s" "1 \<le> P" "RSI_update s x = (out, s')"
  shows "RSI_inv P s' \<and> length (rsi_gains s') = min P (length (rsi_gains s) + 1)
         \<and> (length (rsi_gains s) + 1 < P \<longrightarrow> out = None)
         \<and> (P \<le> length (rsi_gains s) + 1 \<longrightarrow> (\<exists>v. out = Some v \<and> 0 \<le> v \<and> v \<le> 100))"
proof -
  from assms(1) obtain lp where lp: "rsi_lastPrice s = Some lp"
    by (auto simp: RSI_inv_def)
  define gain where "gain = (if x - lp > 0 then x - lp else 0)"
  define loss where "loss = (if x - lp < 0 then - (x - lp) else 0)"
  define s1 where "s1 = s\<lparr>rsi_gains := rsi_gains s @ [gain], rsi_losses := rsi_losses s @ [loss]\<rparr>"
  define s2 where "s2 = (if real (length (rsi_gains s1)) > rsi_period s1
                     then s1\<lparr>rsi_gains := shift (rsi_gains s1), rsi_losses := shift (rsi_losses s1)\<rparr>
                     else s1)"
  have upd: "RSI_update s x = (if real (length (rsi_gains s2)) = rsi_period s2
              then (Some (RSI_value s2), s2)
              else (None, s2\<lparr>rsi_lastPrice := Some x\<rparr>))"
    by (simp add: RSI_update_def lp Let_def gain_def loss_def s1_def s2_def)
  have nonneg: "0 \<le> gain" "0 \<le> loss" by (auto simp: gain_def loss_def)
  have per: "rsi_period s2 = real P" using assms(1) by (simp add: s2_def s1_def RSI_inv_def)
  have len: "length (rsi_gains s2) = min P (length (rsi_gains s) + 1)"
       "length (rsi_losses s2) = length (rsi_gains s2)"
    using assms(1) by (auto simp: s2_def s1_def RSI_inv_def length_shift)
  have pos: "\<forall>g\<in>set (rsi_gains s2). 0 \<le> g" "\<forall>l\<in>set (rsi_losses s2). 0 \<le> l"
    using assms(1) nonneg set_shift [of "rsi_gains s @ [gain]"] set_shift [of "rsi_losses s @ [loss]"]
    by (auto simp: s2_def s1_def RSI_inv_def)
  have lp2: "rsi_lastPrice s2 = Some lp" by (simp add: s2_def s1_def lp)
  have inv2: "RSI_inv P s2" "RSI_inv P (s2\<lparr>rsi_lastPrice := Some x\<rparr>)"
    using per len pos lp2 by (auto simp: RSI_inv_def)
  have rng: "0 \<le> RSI_value s2 \<and> RSI_value s2 \<le> 100"
    using RSI_value_range [OF _ pos] per assms(2) by simp
  show ?thesis
  proof (cases "length (rsi_gains s) + 1 < P")
    case True
    then have "real (length (rsi_gains s2)) \<noteq> rsi_period s2" using len per by simp
    with upd assms(3) have "out = None" "s' = s2\<lparr>rsi_lastPrice := Some x\<rparr>" by auto
    with inv2 len True show ?thesis by simp
  next
    case False
    then have "real (length (rsi_gains s2)) = rsi_period s2" using len per by simp
    with upd assms(3) have "out = Some (RSI_value s2)" "s' = s2" by auto
    with inv2 len rng False show ?thesis by simp
  qed
qed

lemma RSI_feed_warm:
  assumes "RSI_inv P s" "1 \<le> P" "i < length prices"
  shows "(length (rsi_gains s) + i + 1 < P \<longrightarrow> fst (feed RSI_update s prices) ! i = None)
       \<and> (P \<le> length (rsi_gains s) + i + 1 \<longrightarrow>
            (\<exists>v. fst (feed RSI_update s prices) ! i = Some v \<and> 0 \<le> v \<and> v \<le> 100))"
  using assms
proof (induction prices arbitrary: s i)
  case Nil
  then show ?case by simp
next
  case (Cons x xs)
  obtain out s' where u: "RSI_update s x = (out, s')" by (cases "RSI_update s x")
  note st = RSI_update_step [OF Cons.prems(1) Cons.prems(2) u]
  have fd: "fst (feed RSI_update s (x # xs)) = out # fst (feed RSI_update s' xs)"
    by (simp add: u split_beta)
  show ?case
  proof (cases i)
    case 0
    then show ?thesis using st fd by simp
  next
    case (Suc j)
    then have j: "j < length xs" using Cons.prems(3) by simp
    have inv': "RSI_inv P s'" using st by simp
    note ih = Cons.IH [OF inv' Cons.prems(2) j]
    have len: "length (rsi_gains s') = min P (length (rsi_gains s) + 1)" using st by simp
    show ?thesis
    proof (cases "length (rsi_gains s) + 1 \<le> P")
      case True
      then show ?thesis using ih len Suc fd by (simp add: min_def)
    next
      case False
      then show ?thesis using ih len Suc fd by (simp add: min_def)
    qed
  qed
qed


lemma RSI_update_gain_step:
  assumes "rsi_lastPrice s = Some lp" "lp \<le> x" "\<forall>l\<in>set (rsi_losses s). l = 0"
    "RSI_update s x = (out, s')"
  shows "(\<forall>l\<in>set (rsi_losses s'). l = 0)
       \<and> (rsi_lastPrice s' = Some lp \<or> rsi_lastPrice s' = Some x)
       \<and> (\<forall>v. out = Some v \<longrightarrow> v = 100)"
proof -
  define s1 where "s1 = s\<lparr>rsi_gains := rsi_gains s @ [x - lp], rsi_losses := rsi_losses s @ [0]\<rparr>"
  define s2 where "s2 = (if real (length (rsi_gains s1)) > rsi_period s1
                     then s1\<lparr>rsi_gains := shift (rsi_gains s1), rsi_losses := shift (rsi_losses s1)\<rparr>
                     else s1)"
  have upd: "RSI_update s x = (if real (length (rsi_gains s2)) = rsi_period s2
              then (Some (RSI_value s2), s2)
              else (None, s2\<lparr>rsi_lastPrice := Some x\<rparr>))"
    using assms(1,2) by (simp add: RSI_update_def Let_def s1_def s2_def)
  have z: "\<forall>l\<in>set (rsi_losses s2). l = 0"
    using assms(3) set_shift [of "rsi_losses s @ [0]"] by (auto simp: s2_def s1_def)
  have lp2: "rsi_lastPrice s2 = Some lp" by (simp add: s2_def s1_def assms(1))
  have v: "RSI_value s2 = 100" by (rule RSI_value_no_loss [OF z])
  show ?thesis using upd assms(4) z lp2 v by (auto split: if_splits)
qed

lemma RSI_feed_gains:
  assumes "RSI_inv P s" "1 \<le> P" "i < length prices"
    "rsi_lastPrice s = Some lp" "\<forall>x\<in>set prices. lp \<le> x" "sorted prices"
    "\<forall>l\<in>set (rsi_losses s). l = 0" "P \<le> length (rsi_gains s) + i + 1"
  shows "fst (feed RSI_update s prices) ! i = Some 100"
  using assms
proof (induction prices arbitrary: s i lp)
  case Nil
  then show ?case by simp
next
  case (Cons x xs)
  obtain out s' where u: "RSI_update s x = (out, s')" by (cases "RSI_update s x")
  note st = RSI_update_step [OF Cons.prems(1) Cons.prems(2) u]
  have lpx: "lp \<le> x" using Cons.prems(5) by simp
  note gs = RSI_update_gain_step [OF Cons.prems(4) lpx Cons.prems(7) u]
  have fd: "fst (feed RSI_update s (x # xs)) = out # fst (feed RSI_update s' xs)"
    by (simp add: u split_beta)
  show ?case
  proof (cases i)
    case 0
    with Cons.prems(8) st obtain v where "out = Some v" by auto
    with gs have "out = Some 100" by simp
    then show ?thesis using fd 0 by simp
  next
    case (Suc j)
    then have j: "j < length xs" using Cons.prems(3) by simp
    have inv': "RSI_inv P s'" using st by simp
    have len: "length (rsi_gains s') = min P (length (rsi_gains s) + 1)" using st by simp
    have bound: "P \<le> length (rsi_gains s') + j + 1"
      using Cons.prems(8) len Suc by (simp add: min_def)
    have z': "\<forall>l\<in>set (rsi_losses s'). l = 0" using gs by simp
    have srt: "sorted xs" using Cons.prems(6) by simp
    from gs have "rsi_lastPrice s' = Some lp \<or> rsi_lastPrice s' = Some x" by simp
    then have "fst (feed RSI_update s' xs) ! j = Some 100"
    proof
      assume l: "rsi_lastPrice s' = Some lp"
      have "\<forall>y\<in>set xs. lp \<le> y" using Cons.prems(5) by simp
      then show ?thesis by (rule Cons.IH [OF inv' Cons.prems(2) j l _ srt z' bound])
    next
      assume l: "rsi_lastPrice s' = Some x"
      have "\<forall>y\<in>set xs. x \<le> y" using Cons.prems(6) by simp
      then show ?thesis by (rule Cons.IH [OF inv' Cons.prems(2) j l _ srt z' bound])
    qed
    then show ?thesis using fd Suc by simp
  qed
qed

lemma RSI_first_update:
  "RSI_update (RSI_new p) x = (None, (RSI_new p)\<lparr>rsi_lastPrice := Some x\<rparr>)"
  by (simp add: RSI_update_def RSI_new_def)

lemma RSI_inv_first: "RSI_inv P ((RSI_new (real P))\<lparr>rsi_lastPrice := Some x\<rparr>)"
  by (simp add: RSI_inv_def RSI_new_def)

text \<open>
  Claim C2, as the code has it. For every period \<open>P \<ge> 1\<close> and every price sequence,
  \<open>RSI(P).update\<close> on a fresh instance returns \<open>null\<close> for the first \<open>P\<close> updates
  (indices \<open>i < P\<close>: the window of \<open>P\<close> changes needs \<open>P + 1\<close> prices) and from update
  \<open>P + 1\<close> onward returns a value in \<open>[0, 100]\<close>; when the prices increase strictly,
  every such value is 100.
\<close>

theorem RSI_warmup_range_gains:
  assumes "1 \<le> P" and "i < length prices"
  shows "(i < P \<longrightarrow> fst (feed RSI_update (RSI_new (real P)) prices) ! i = None)
       \<and> (P \<le> i \<longrightarrow> (\<exists>v. fst (feed RSI_update (RSI_new (real P)) prices) ! i = Some v
                          \<and> 0 \<le> v \<and> v \<le> 100))
       \<and> (P \<le> i \<longrightarrow> sorted_wrt (<) prices \<longrightarrow>
             fst (feed RSI_update (RSI_new (real P)) prices) ! i = Some 100)"
proof (cases prices)
  case Nil
  then show ?thesis using assms(2) by simp
next
  case (Cons x xs)
  define s0 where "s0 = (RSI_new (real P))\<lparr>rsi_lastPrice := Some x\<rparr>"
  have fd: "fst (feed RSI_update (RSI_new (real P)) prices) = None # fst (feed RSI_update s0 xs)"
    by (simp add: Cons RSI_first_update s0_def split_beta)
  have inv: "RSI_inv P s0" unfolding s0_def by (rule RSI_inv_first)
  have g0: "length (rsi_gains s0) = 0" "rsi_lastPrice s0 = Some x" "\<forall>l\<in>set (rsi_losses s0). l = 0"
    by (simp_all add: s0_def RSI_new_def)
  show ?thesis
  proof (cases i)
    case 0
    then show ?thesis using fd assms(1) by simp
  next
    case (Suc j)
    then have j: "j < length xs" using assms(2) Cons by simp
    note w = RSI_feed_warm [OF inv assms(1) j]
    have "fst (feed RSI_update s0 xs) ! j = Some 100" if "P \<le> i" "sorted_wrt (<) prices"
    proof -
      have srt: "sorted prices" using that(2) by (rule strict_sorted_imp_sorted)
      then have 1: "\<forall>y\<in>set xs. x \<le> y" and 2: "sorted xs" using Cons by simp_all
      have 3: "P \<le> length (rsi_gains s0) + j + 1" using that(1) Suc g0 by simp
      show ?thesis by (rule RSI_feed_gains [OF inv assms(1) j g0(2) 1 2 g0(3) 3])
    qed
    then show ?thesis using w fd Suc g0 by simp
  qed
qed

theorem RSI_warmup_range_gains_witness:
  "(1::nat) \<le> 2 \<and> (2::nat) < length [1, 2, 4::real] \<and> \<not> (2::nat) < 2 \<and> sorted_wrt (<) [1, 2, 4::real]
   \<and> fst (feed RSI_update (RSI_new (real 2)) [1, 2, 4]) ! 2 = Some 100
   \<and> fst (feed RSI_update (RSI_new (real 2)) [1, 2, 4]) ! 1 = None"
  using RSI_warmup_range_gains [of 2 2 "[1, 2, 4]"] RSI_warmup_range_gains [of 2 1 "[1, 2, 4]"]
  by simp

text \<open>
  With period 2 the second update returns \<open>null\<close>, and with period 1 the first does.
\<close>

theorem RSI_warmup_counterexample:
  "fst (feed RSI_update (RSI_new 2) [1, 2]) ! 1 = None
   \<and> fst (feed RSI_update (RSI_new 1) [5]) ! 0 = None"
  by (simp add: RSI_update_def RSI_new_def Let_def)
section \<open>The EMA crossover scenario\<close>

text \<open>
  Claim C1, as the code has it. An EMA crossover strategy with \<open>fastPeriod = 2\<close> and
  \<open>slowPeriod = 3\<close>, fed the prices 1, 2, 3, 10, 1 from a fresh state with one
  \<open>evaluate\<close> call per price, emits two signals: \<open>long\<close> at the second call, the first
  call at which the fast EMA exceeds the slow EMA, and \<open>short\<close> at the fifth call, where
  the fast EMA is below the slow EMA again. The values of the two EMAs after each
  call are the second and third conjunct.
\<close>

theorem EMACross_scenario_two_signals:
  "map (map_option side)
     (fst (feed EMACrossStrategy_evaluate
             (EMACrossStrategy_new \<lparr>param_fastPeriod = Some 2, param_slowPeriod = Some 3\<rparr>)
             (map (price_tick symb ts c) [1, 2, 3, 10, 1])))
     = [None, Some long, None, None, Some short]
   \<and> fst (feed EMA_update (EMA_new 2) [1, 2, 3, 10, 1])
       = [Some 1, Some (5 / 3), Some (23 / 9), Some (203 / 27), Some (257 / 81)]
   \<and> fst (feed EMA_update (EMA_new 3) [1, 2, 3, 10, 1])
       = [Some 1, Some (3 / 2), Some (9 / 4), Some (49 / 8), Some (57 / 16)]"
  by (simp add: EMACrossStrategy_evaluate_def EMACrossStrategy_new_def EMA_update_def
        EMA_new_def price_tick_def Let_def)

text \<open>
  The number of signals is 2 when the calls are made on one instance, and 0 when each
  call is made on a fresh instance.
\<close>

theorem EMACross_scenario_counterexample:
  "length (emitted (fst (feed EMACrossStrategy_evaluate
             (EMACrossStrategy_new \<lparr>param_fastPeriod = Some 2, param_slowPeriod = Some 3\<rparr>)
             (map (price_tick ''EURUSD'' 0 None) [1, 2, 3, 10, 1])))) = 2
   \<and> length (emitted (map (evaluate_fresh \<lparr>param_fastPeriod = Some 2, param_slowPeriod = Some 3\<rparr>)
             (map (price_tick ''EURUSD'' 0 None) [1, 2, 3, 10, 1]))) = 0"
  by (simp add: EMACrossStrategy_evaluate_def EMACrossStrategy_new_def EMA_update_def
        EMA_new_def price_tick_def evaluate_fresh_def emitted_def List.map_filter_def Let_def)

section \<open>Boundaries, arming a job, unknown timeframes\<close>

lemma js_rem_dvd: "T dvd t - js_rem t T"
proof (cases "0 \<le> t")
  case True
  then have "t - js_rem t T = \<bar>T\<bar> * (t div \<bar>T\<bar>)"
    by (cases "t = 0") (simp_all add: js_rem_def minus_mod_eq_mult_div)
  then show ?thesis by simp
next
  case False
  then have "t - js_rem t T = - (\<bar>T\<bar> * ((- t) div \<bar>T\<bar>))"
    by (simp add: js_rem_def minus_mod_eq_mult_div [symmetric])
  then show ?thesis by simp
qed

lemma js_rem_less: "0 < T \<Longrightarrow> js_rem t T < T"
proof -
  assume T: "0 < T"
  have "\<bar>t\<bar> mod \<bar>T\<bar> < T" "0 \<le> \<bar>t\<bar> mod \<bar>T\<bar>" using T by simp_all
  then show ?thesis
    by (cases "0 < t"; cases "t = 0") (simp_all add: js_rem_def)
qed

lemma js_rem_nonneg: "0 \<le> t \<Longrightarrow> 0 < T \<Longrightarrow> js_rem t T = t mod T"
  by (cases "t = 0") (simp_all add: js_rem_def)

lemma timeframes_positive: "(timeframe, T) \<in> set timeframes \<Longrightarrow> 0 < T"
  by (auto simp: timeframes_def)

lemma getNextCandleBoundary_props:
  assumes "0 < T"
  shows "T dvd getNextCandleBoundary t T" and "t < getNextCandleBoundary t T"
proof -
  have "T dvd (t - js_rem t T) + T" using js_rem_dvd [of T t] by simp
  then show "T dvd getNextCandleBoundary t T" by (simp add: getNextCandleBoundary_def)
  show "t < getNextCandleBoundary t T"
    using js_rem_less [OF assms, of t] by (simp add: getNextCandleBoundary_def)
qed

text \<open>
  Claim C4. For every duration \<open>T\<close> of the timeframe table and every time value \<open>t\<close>,
  \<open>getNextCandleBoundary(t, T)\<close> is an integer multiple of \<open>T\<close> and is strictly greater
  than \<open>t\<close>.
\<close>

theorem getNextCandleBoundary_multiple_and_later:
  assumes "(timeframe, T) \<in> set timeframes"
  shows "T dvd getNextCandleBoundary t T \<and> t < getNextCandleBoundary t T"
  using getNextCandleBoundary_props [OF timeframes_positive [OF assms]] by simp

theorem getNextCandleBoundary_multiple_and_later_witness:
  "(''1m'', 60000) \<in> set timeframes
   \<and> getNextCandleBoundary 1700000012345 60000 = 1700000040000
   \<and> (60000::int) dvd 1700000040000
   \<and> getNextCandleBoundary (- 1500) 60000 = 60000"
  using getNextCandleBoundary_multiple_and_later [of "''1m''" 60000 1700000012345]
  by (simp add: timeframes_def getNextCandleBoundary_def js_rem_def)


lemma get_property_timeframes_positive:
  assumes "get_property timeframes timeframe = Num T"
  shows "0 < T"
proof -
  from assms have "map_of timeframes timeframe = Some T"
    by (auto simp: get_property_def split: option.splits if_splits)
  then have "(timeframe, T) \<in> set timeframes" by (rule map_of_SomeD)
  then show ?thesis by (rule timeframes_positive)
qed

text \<open>
  Claim C8. When \<open>scheduleNext\<close> arms a job for a timeframe of the table with duration
  \<open>T\<close> and \<open>offset < T\<close>: if \<open>delay = nextBoundary - now - offset\<close> is \<open>\<le> 0\<close> the timeout
  and the job entry target \<open>nextBoundary + T\<close>, otherwise \<open>nextBoundary\<close>; the delay given
  to \<open>setTimeout\<close> is the time to \<open>offset\<close> before the target and is strictly positive;
  and no boundary \<open>B\<close> that is already due (\<open>B - offset \<le> now\<close>) is targeted.
\<close>

theorem scheduleNext_targets_following_boundary:
  assumes "get_property timeframes timeframe = Num T" and "offset < real_of_int T"
  shows "let nextBoundary = getNextCandleBoundary (env_serverTime w) T;
             delay = real_of_int (nextBoundary - env_serverTime w) - offset;
             target = (if delay \<le> 0 then nextBoundary + T else nextBoundary);
             w' = scheduleNext w jobId symbol timeframe callback (Num T) offset
         in (\<exists>tm d. timeouts w' (nextTimeoutId w) = Some tm
                    \<and> timer_delay tm = Some d \<and> 0 < d
                    \<and> d = real_of_int (target - env_serverTime w) - offset
                    \<and> timer_boundary tm = Date target)
            \<and> (\<forall>B. real_of_int B \<le> real_of_int (env_serverTime w) + offset \<longrightarrow> B < target)
            \<and> map_of (jobs w') jobId
                = Some \<lparr>job_timeoutId = nextTimeoutId w, job_nextExecution = Date target\<rparr>"
proof -
  have T: "0 < T" using assms(1) by (rule get_property_timeframes_positive)
  define nb where "nb = getNextCandleBoundary (env_serverTime w) T"
  have later: "env_serverTime w < nb" unfolding nb_def by (rule getNextCandleBoundary_props(2) [OF T])
  then have pos: "0 < real_of_int (nb + T - env_serverTime w) - offset"
    using assms(2) by simp
  show ?thesis
  proof (cases "real_of_int (nb - env_serverTime w) - offset \<le> 0")
    case True
    then show ?thesis using pos
      by (simp add: scheduleNext_def setTimeout_def Let_def nb_def [symmetric] update_conv')
  next
    case False
    then show ?thesis
      by (simp add: scheduleNext_def setTimeout_def Let_def nb_def [symmetric] update_conv')
  qed
qed


theorem scheduleNext_targets_following_boundary_witness:
  "get_property timeframes ''1m'' = Num 60000 \<and> (5::real) < real_of_int 60000
   \<and> getNextCandleBoundary 59997 60000 = 60000
   \<and> real_of_int (60000 - 59997) - 5 \<le> 0
   \<and> map_of (jobs (scheduleNext (Scheduler_new 0 59997) ''EURUSD_1m_0'' ''EURUSD'' ''1m''
                     (Callback []) (Num 60000) 5)) ''EURUSD_1m_0''
       = Some \<lparr>job_timeoutId = 1, job_nextExecution = Date 120000\<rparr>
   \<and> map_option timer_delay
        (timeouts (scheduleNext (Scheduler_new 0 59997) ''EURUSD_1m_0'' ''EURUSD'' ''1m''
                     (Callback []) (Num 60000) 5) 1)
       = Some (Some 59998)"
  using scheduleNext_targets_following_boundary
          [of "''1m''" 60000 5 "Scheduler_new 0 59997" "''EURUSD_1m_0''" "''EURUSD''" "Callback []"]
  by (auto simp: get_property_def timeframes_def getNextCandleBoundary_def js_rem_def
        Scheduler_new_def Let_def)

lemma get_property_unknown:
  assumes "timeframe \<notin> fst ` set timeframes" and "timeframe \<notin> set Object_prototype_names"
  shows "get_property timeframes timeframe = Undefined"
proof -
  have "map_of timeframes timeframe = None" using assms(1) by (simp add: map_of_eq_None_iff)
  then show ?thesis using assms(2) by (simp add: get_property_def)
qed

text \<open>
  Claim C3, as the code has it. For a timeframe string that is neither a key of the
  table nor the name of a member of \<open>Object.prototype\<close>: \<open>scheduleAtCandleBoundary\<close>
  throws \<open>Invalid timeframe\<close>; the candle builder does not reject it but takes the
  duration 60000 ms, and the first candle it builds is a \<open>1m\<close> candle of that length.
  For a name that is not registered, \<open>createStrategy\<close> throws.
\<close>

theorem unknown_timeframe_or_strategy:
  assumes "timeframe \<notin> fst ` set timeframes" and "timeframe \<notin> set Object_prototype_names"
    and "strategies name = None"
  shows "scheduleAtCandleBoundary w symbol timeframe callback options_offset
           = Inl (Error (''Invalid timeframe: '' @ timeframe))
       \<and> getTimeframeMs timeframe = Num 60000
       \<and> candleBuilders (snd (buildCandle IndicatorWorker_new symbol timeframe tick))
            (symbol @ ''_'' @ timeframe)
           = Some \<lparr>currentCandle = Some (current (fst (buildCandle IndicatorWorker_new symbol timeframe tick))),
                   timeframeMs = Num 60000\<rparr>
       \<and> candle_frame (current (fst (buildCandle IndicatorWorker_new symbol timeframe tick))) = ''1m''
       \<and> candle_ts_open (current (fst (buildCandle IndicatorWorker_new symbol timeframe tick)))
           = Date (tick_ts tick - js_rem (tick_ts tick) 60000)
       \<and> candle_ts_close (current (fst (buildCandle IndicatorWorker_new symbol timeframe tick)))
           = Date (tick_ts tick - js_rem (tick_ts tick) 60000 + 60000)
       \<and> createStrategy strategies store name params userId
           = Inl (Error (''Strategy '' @ name @ '' not found''))"
proof -
  note u = get_property_unknown [OF assms(1,2)]
  have ms: "getTimeframeMs timeframe = Num 60000" by (simp add: getTimeframeMs_def u)
  have frame: "getMsToTimeframe (Num 60000) = ''1m''"
    by (simp add: getMsToTimeframe_def timeframes_def)
  show ?thesis
    using assms(3) frame
    by (simp add: scheduleAtCandleBoundary_def u ms buildCandle_def IndicatorWorker_new_def
          createNewCandle_def getCandleStart_def date_plus_def createStrategy_def Let_def)
qed

theorem unknown_timeframe_or_strategy_witness:
  "''2m'' \<notin> fst ` set timeframes \<and> ''2m'' \<notin> set Object_prototype_names
   \<and> (registerStrategy Map.empty ''EMA_Cross'' EMACrossStrategy_new) ''Momentum'' = None
   \<and> scheduleAtCandleBoundary (Scheduler_new 0 0) ''EURUSD'' ''2m'' (Callback []) None
       = Inl (Error ''Invalid timeframe: 2m'')
   \<and> createStrategy (registerStrategy Map.empty ''EMA_Cross'' EMACrossStrategy_new)
        (\<lambda>row. Inserted ''1'') ''Momentum''
        \<lparr>param_fastPeriod = None, param_slowPeriod = None\<rparr> ''user''
       = Inl (Error ''Strategy Momentum not found'')"
  using unknown_timeframe_or_strategy
          [of "''2m''" "registerStrategy Map.empty ''EMA_Cross'' EMACrossStrategy_new" "''Momentum''"
              "Scheduler_new 0 0" "''EURUSD''" "Callback []" None _
              "\<lambda>row. Inserted ''1''" "\<lparr>param_fastPeriod = None, param_slowPeriod = None\<rparr>" "''user''"]
  by (simp add: timeframes_def Object_prototype_names_def registerStrategy_def)

text \<open>
  The timeframe \<open>2m\<close> is not in the table and the candle builder builds a one-minute
  candle for it; \<open>constructor\<close> is not in the table and the scheduler accepts it.
\<close>

theorem unknown_timeframe_counterexample:
  "''2m'' \<notin> fst ` set timeframes
   \<and> getTimeframeMs ''2m'' = Num 60000
   \<and> fst (buildCandle IndicatorWorker_new ''EURUSD'' ''2m''
             \<lparr>tick_symbol = ''EURUSD'', tick_ts = 1700000012345, tick_price = 1\<rparr>)
       = \<lparr>completed = None,
          current = \<lparr>candle_symbol = ''EURUSD'', candle_frame = ''1m'', candle_open = 1,
                     candle_high = 1, candle_low = 1, candle_close = 1,
                     candle_ts_open = Date 1699999980000, candle_ts_close = Date 1700000040000,
                     candle_volume = 1, candle_tickCount = 1\<rparr>,
          isNewCandle = True\<rparr>
   \<and> ''constructor'' \<notin> fst ` set timeframes
   \<and> map_sum id fst (scheduleAtCandleBoundary (Scheduler_new 0 0) ''EURUSD'' ''constructor''
                        (Callback []) None)
       = Inr ''EURUSD_constructor_0''"
  by (simp add: timeframes_def getTimeframeMs_def get_property_def Object_prototype_names_def
        buildCandle_def IndicatorWorker_new_def createNewCandle_def getCandleStart_def
        getMsToTimeframe_def date_plus_def js_rem_def scheduleAtCandleBoundary_def
        js_string_of_int_def decimal.simps Scheduler_new_def Let_def)
section \<open>The clock offset\<close>

lemma Date_new_integral: "Date_new (real_of_int n) = n"
  by (simp add: Date_new_def)

lemma Date_new_near: "\<bar>real_of_int (Date_new x) - x\<bar> < 1"
  by (simp add: Date_new_def) linarith

lemma client_offset_unwritten:
  assumes "\<forall>e\<in>set events. \<not> writes_offset e"
  shows "clockOffset (foldl client_step c events) = clockOffset c"
  using assms
proof (induction events arbitrary: c)
  case Nil
  then show ?case by simp
next
  case (Cons e es)
  have "clockOffset (client_step c e) = clockOffset c"
    using Cons.prems by (cases e) (simp_all add: syncClock_def)
  moreover have "clockOffset (foldl client_step (client_step c e) es) = clockOffset (client_step c e)"
    using Cons.prems by (intro Cons.IH) simp
  ultimately show ?case by simp
qed

text \<open>
  Claim C7, as the code has it. A fresh client has offset 0, and the offset stays 0
  as long as no pong and no \<open>server_time\<close> message is handled; a pong handled while no
  ping time is recorded changes nothing. A pong handled after \<open>syncClock\<close> recorded the
  send time \<open>sent\<close> overwrites the offset with
  \<open>serverTime - now + (now - sent) / 2\<close>. \<open>getServerTime\<close> returns the date whose time
  value is local time plus offset rounded toward zero to a whole millisecond: it is
  less than 1 ms away from local time plus offset, and equal to it when the offset is
  a whole number.
\<close>

theorem clock_offset_of_probe:
  "clockOffset WebSocketClient_new = 0
   \<and> ((\<forall>e\<in>set events. \<not> writes_offset e)
        \<longrightarrow> clockOffset (foldl client_step WebSocketClient_new events) = 0)
   \<and> (lastPingTime c = None \<longrightarrow> handlePong c server_time now = c)
   \<and> (isConnected c \<and> sent \<noteq> 0
        \<longrightarrow> clockOffset (handlePong (syncClock c sent) server_time now)
            = real_of_int server_time - real_of_int now + real_of_int (now - sent) / 2)
   \<and> getServerTime c now = Date_new (real_of_int now + clockOffset c)
   \<and> \<bar>real_of_int (getServerTime c now) - (real_of_int now + clockOffset c)\<bar> < 1
   \<and> (clockOffset c = real_of_int k
        \<longrightarrow> real_of_int (getServerTime c now) = real_of_int now + clockOffset c)"
proof -
  have 1: "clockOffset WebSocketClient_new = 0" by (simp add: WebSocketClient_new_def)
  have 2: "(\<forall>e\<in>set events. \<not> writes_offset e)
        \<longrightarrow> clockOffset (foldl client_step WebSocketClient_new events) = 0"
    using client_offset_unwritten [of events WebSocketClient_new] 1 by simp
  have 3: "lastPingTime c = None \<longrightarrow> handlePong c server_time now = c"
    by (simp add: handlePong_def)
  have 4: "isConnected c \<and> sent \<noteq> 0
        \<longrightarrow> clockOffset (handlePong (syncClock c sent) server_time now)
            = real_of_int server_time - real_of_int now + real_of_int (now - sent) / 2"
    by (simp add: handlePong_def syncClock_def Let_def)
  have 5: "getServerTime c now = Date_new (real_of_int now + clockOffset c)"
    by (simp add: getServerTime_def)
  have 6: "\<bar>real_of_int (getServerTime c now) - (real_of_int now + clockOffset c)\<bar> < 1"
    unfolding getServerTime_def by (rule Date_new_near)
  have 7: "clockOffset c = real_of_int k
        \<longrightarrow> real_of_int (getServerTime c now) = real_of_int now + clockOffset c"
  proof
    assume k: "clockOffset c = real_of_int k"
    have "getServerTime c now = now + k"
      using Date_new_integral [of "now + k"] by (simp add: getServerTime_def k)
    then show "real_of_int (getServerTime c now) = real_of_int now + clockOffset c"
      by (simp add: k)
  qed
  show ?thesis using 1 2 3 4 5 6 7 by blast
qed

theorem clock_offset_of_probe_witness:
  "\<not> writes_offset Opened \<and> \<not> writes_offset (SyncClock 1000)
   \<and> clockOffset (foldl client_step WebSocketClient_new [Opened, SyncClock 1000]) = 0
   \<and> lastPingTime WebSocketClient_new = None
   \<and> handlePong WebSocketClient_new 5000 1040 = WebSocketClient_new
   \<and> isConnected (client_step WebSocketClient_new Opened) \<and> (1000::int) \<noteq> 0
   \<and> clockOffset (handlePong (syncClock (client_step WebSocketClient_new Opened) 1000) 5000 1040)
       = 3980
   \<and> getServerTime (handlePong (syncClock (client_step WebSocketClient_new Opened) 1000) 5000 1040)
        2000 = 5980"
  using clock_offset_of_probe
          [where events = "[Opened, SyncClock 1000]" and c = WebSocketClient_new
             and server_time = 5000 and now = 1040 and sent = 1000 and k = 0]
        clock_offset_of_probe
          [where events = "[]" and c = "client_step WebSocketClient_new Opened"
             and server_time = 5000 and now = 1040 and sent = 1000 and k = 0]
        clock_offset_of_probe
          [where events = "[]"
             and c = "handlePong (syncClock (client_step WebSocketClient_new Opened) 1000) 5000 1040"
             and server_time = 5000 and now = 2000 and sent = 1000 and k = 3980]
  by (simp add: WebSocketClient_new_def handlePong_def syncClock_def getServerTime_def
        Date_new_def Let_def)

text \<open>
  A round trip of 1 ms gives the offset 1/2, and the corrected time at local time 2000
  is then 2000, not 2000.5. A \<open>server_time\<close> message sets the offset without any probe.
  A pong that answers a heartbeat ping sent at 11000 and is received at 11050 is
  handled with the send time 1000 of the last \<open>syncClock\<close>: the offset becomes 5000,
  where the round trip of 50 ms gives 0.
\<close>

theorem clock_offset_counterexample:
  "clockOffset (handlePong (syncClock (client_step WebSocketClient_new Opened) 1000) 1001 1001)
     = 1 / 2
   \<and> real_of_int (getServerTime
         (handlePong (syncClock (client_step WebSocketClient_new Opened) 1000) 1001 1001) 2000)
       \<noteq> real_of_int 2000 + 1 / 2
   \<and> clockOffset (client_step WebSocketClient_new (Server_time 5000 1000)) = 4000
   \<and> clockOffset (foldl client_step WebSocketClient_new
          [Opened, SyncClock 1000, Pong 1025 1050, Heartbeat 11000, Pong 11025 11050]) = 5000
   \<and> real_of_int 11025 - real_of_int 11050 + real_of_int (11050 - 11000) / 2 = 0"
  by (simp add: WebSocketClient_new_def handlePong_def syncClock_def getServerTime_def
        Date_new_def updateClockOffset_def Let_def)

section \<open>Evaluating a list of strategies\<close>

lemma try_evaluate_state:
  "snd (try_evaluate store tick candle s) = evaluated tick candle s"
  by (simp add: try_evaluate_def evaluated_def Let_def split_beta
           split: sum.splits option.splits insert_result.splits)

lemma try_evaluate_contribution:
  "(case fst (try_evaluate store tick candle s) of Inl e \<Rightarrow> None | Inr r \<Rightarrow> r)
     = contribution store tick candle s"
  by (simp add: try_evaluate_def contribution_def Let_def split_beta
           split: sum.splits option.splits insert_result.splits)

lemma loop_body_appends:
  "(case fst (try_evaluate store tick candle s) of
      Inl e \<Rightarrow> signals
    | Inr None \<Rightarrow> signals
    | Inr (Some x) \<Rightarrow> signals @ [x])
     = signals @ (case contribution store tick candle s of None \<Rightarrow> [] | Some x \<Rightarrow> [x])"
  using try_evaluate_contribution [of store tick candle s]
  by (simp split: sum.splits option.splits)

lemma evaluateStrategies_loop_eq:
  "evaluateStrategies_loop store tick candle strategies signals =
     (signals @ List.map_filter (contribution store tick candle) strategies,
      map (evaluated tick candle) strategies)"
proof (induction strategies arbitrary: signals)
  case Nil
  then show ?case by (simp add: List.map_filter_simps)
next
  case (Cons s rest)
  show ?case
    by (cases "contribution store tick candle s")
       (simp_all add: split_beta Cons.IH loop_body_appends try_evaluate_state
          List.map_filter_simps)
qed

text \<open>
  Claim C9, as the code has it. For every list of strategies, \<open>evaluateStrategies\<close>
  does not fail; it calls the \<open>evaluate\<close> of each strategy once, in list order, also
  after one of them has thrown; and it returns, in that same order, the non-null
  results whose insert into the store reported no error, each extended with the id
  the store gave and the name of the strategy. A strategy whose \<open>evaluate\<close> throws
  or returns \<open>null\<close>, or whose insert throws or is answered with an error, adds
  nothing.
\<close>

theorem evaluateStrategies_collects_in_order:
  "evaluateStrategies store tick candle strategies =
     (Inr (List.map_filter (contribution store tick candle) strategies),
      map (evaluated tick candle) strategies)"
  by (simp add: evaluateStrategies_def evaluateStrategies_loop_eq)

theorem evaluateStrategies_collects_in_order_witness:
  "fst (evaluateStrategies store_up \<lparr>tick_symbol = ''EURUSD'', tick_ts = 60000, tick_price = 2\<rparr> None
          [BaseStrategy ''b'' after_price_1, EMACross_strategy ''e'' after_price_1])
     = Inr [\<lparr>side = long, confidence = 1 / 9,
              details = \<lparr>det_fastEMA = 5 / 3, det_slowEMA = 3 / 2, det_crossover = bullish,
                         det_price = 2\<rparr>,
              signal_id = ''sig-e'', signal_strategy = ''EMA_Cross''\<rparr>]"
  using evaluateStrategies_collects_in_order
          [of store_up "\<lparr>tick_symbol = ''EURUSD'', tick_ts = 60000, tick_price = 2\<rparr>" None
              "[BaseStrategy ''b'' after_price_1, EMACross_strategy ''e'' after_price_1]"]
  by (simp add: contribution_def BaseStrategy_def EMACross_strategy_def after_price_1_def
        store_up_def EMACrossStrategy_evaluate_def EMACrossStrategy_new_def EMA_update_def
        EMA_new_def price_tick_def List.map_filter_simps Let_def)

text \<open>
  The strategy returns a \<open>long\<close> signal, the store refuses the insert, and the result
  is empty.
\<close>

theorem evaluateStrategies_counterexample:
  "fst (strategy_evaluate (EMACross_strategy ''e'' after_price_1) after_price_1
          \<lparr>tick_symbol = ''EURUSD'', tick_ts = 60000, tick_price = 2\<rparr> None)
     = Inr (Some \<lparr>side = long, confidence = 1 / 9,
                   details = \<lparr>det_fastEMA = 5 / 3, det_slowEMA = 3 / 2,
                              det_crossover = bullish, det_price = 2\<rparr>\<rparr>)
   \<and> fst (evaluateStrategies store_down
            \<lparr>tick_symbol = ''EURUSD'', tick_ts = 60000, tick_price = 2\<rparr> None
            [EMACross_strategy ''e'' after_price_1])
       = Inr []"
  by (simp add: evaluateStrategies_def try_evaluate_def EMACross_strategy_def
        after_price_1_def store_down_def EMACrossStrategy_evaluate_def
        EMACrossStrategy_new_def EMA_update_def EMA_new_def price_tick_def Let_def)

section \<open>Completed candles\<close>

lemma feed_nth:
  "i < length xs \<Longrightarrow> fst (feed f s xs) ! i = fst (f (snd (feed f s (take i xs))) (xs ! i))"
proof (induction xs arbitrary: s i)
  case Nil
  then show ?case by simp
next
  case (Cons x xs)
  then show ?case by (cases i) (simp_all add: split_beta)
qed

lemma feed_snoc: "snd (feed f s (xs @ [x])) = snd (f (snd (feed f s xs)) x)"
  by (induction xs arbitrary: s) (simp_all add: split_beta)

lemma getTimeframeMs_positive:
  assumes "getTimeframeMs timeframe = Num T"
  shows "0 < T"
proof (cases "truthy (get_property timeframes timeframe)")
  case True
  then have "get_property timeframes timeframe = Num T" using assms by (simp add: getTimeframeMs_def)
  then have "map_of timeframes timeframe = Some T"
    by (auto simp: get_property_def split: option.splits if_splits)
  then have "(timeframe, T) \<in> set timeframes" by (rule map_of_SomeD)
  then show ?thesis by (auto simp: timeframes_def)
next
  case False
  then show ?thesis using assms by (simp add: getTimeframeMs_def)
qed

lemma summarises_first:
  "T \<noteq> 0 \<Longrightarrow> summarises T (createNewCandle x (getCandleStart (tick_ts x) (Num T)) (Num T)) [x]"
  by (simp add: summarises_def createNewCandle_def getCandleStart_def Let_def)

lemma summarises_update:
  assumes "summarises T cur r" and "T \<noteq> 0"
    and "\<not> getTime_differs (candle_ts_open cur) (getCandleStart (tick_ts x) (Num T))"
  shows "summarises T (updateCandle cur x) (r @ [x])"
proof -
  have "candle_ts_open cur = Date (tick_ts x - js_rem (tick_ts x) T)"
    using assms(2,3)
    by (cases "candle_ts_open cur") (simp_all add: getTime_differs_def getCandleStart_def Let_def)
  then show ?thesis using assms(1)
    by (auto simp: summarises_def updateCandle_def)
qed

lemma summarises_start:
  assumes "summarises T cur r" and "T \<noteq> 0"
  shows "candle_ts_open cur = getCandleStart (tick_ts (last r)) (Num T)"
  using assms by (simp add: summarises_def getCandleStart_def Let_def)

lemma buildCandle_first:
  assumes "candleBuilders w (symbol @ ''_'' @ timeframe) = None"
  shows "buildCandle w symbol timeframe x =
           (let tm = getTimeframeMs timeframe;
                new = createNewCandle x (getCandleStart (tick_ts x) tm) tm
            in (\<lparr>completed = None, current = new, isNewCandle = True\<rparr>,
                w\<lparr>candleBuilders := (candleBuilders w)(symbol @ ''_'' @ timeframe \<mapsto>
                     \<lparr>currentCandle = Some new, timeframeMs = tm\<rparr>)\<rparr>))"
  using assms by (simp add: buildCandle_def Let_def)

lemma buildCandle_next:
  assumes "candleBuilders w (symbol @ ''_'' @ timeframe)
             = Some \<lparr>currentCandle = Some cur, timeframeMs = tm\<rparr>"
  shows "buildCandle w symbol timeframe x =
           (if getTime_differs (candle_ts_open cur) (getCandleStart (tick_ts x) tm)
            then (let new = createNewCandle x (getCandleStart (tick_ts x) tm) tm
                  in (\<lparr>completed = Some cur, current = new, isNewCandle = True\<rparr>,
                      w\<lparr>candleBuilders := (candleBuilders w)(symbol @ ''_'' @ timeframe \<mapsto>
                           \<lparr>currentCandle = Some new, timeframeMs = tm\<rparr>)\<rparr>))
            else (let upd = updateCandle cur x
                  in (\<lparr>completed = None, current = upd, isNewCandle = False\<rparr>,
                      w\<lparr>candleBuilders := (candleBuilders w)(symbol @ ''_'' @ timeframe \<mapsto>
                           \<lparr>currentCandle = Some upd, timeframeMs = tm\<rparr>)\<rparr>)))"
  using assms by (simp add: buildCandle_def Let_def)

lemma builder_after_ticks:
  assumes "getTimeframeMs timeframe = Num T" and "pre \<noteq> []"
  shows "\<exists>cur p r.
           candleBuilders (snd (feed (ingest symbol timeframe) IndicatorWorker_new pre))
             (symbol @ ''_'' @ timeframe) = Some \<lparr>currentCandle = Some cur, timeframeMs = Num T\<rparr>
         \<and> pre = p @ r \<and> summarises T cur r
         \<and> (p \<noteq> [] \<longrightarrow> getCandleStart (tick_ts (last p)) (Num T) \<noteq> candle_ts_open cur)"
  using assms(2)
proof (induction pre rule: rev_induct)
  case Nil
  then show ?case by simp
next
  case (snoc x xs)
  have T: "T \<noteq> 0" using getTimeframeMs_positive [OF assms(1)] by simp
  let ?key = "symbol @ ''_'' @ timeframe"
  let ?w = "snd (feed (ingest symbol timeframe) IndicatorWorker_new xs)"
  let ?start = "getCandleStart (tick_ts x) (Num T)"
  have after: "snd (feed (ingest symbol timeframe) IndicatorWorker_new (xs @ [x]))
                 = snd (buildCandle ?w symbol timeframe x)"
    by (simp add: feed_snoc ingest_def)
  show ?case
  proof (cases "xs = []")
    case True
    have "candleBuilders (snd (buildCandle IndicatorWorker_new symbol timeframe x)) ?key
            = Some \<lparr>currentCandle = Some (createNewCandle x ?start (Num T)), timeframeMs = Num T\<rparr>"
      by (simp add: buildCandle_first IndicatorWorker_new_def assms(1) Let_def)
    moreover have "summarises T (createNewCandle x ?start (Num T)) [x]"
      by (rule summarises_first [OF T])
    ultimately show ?thesis using True after
      by (intro exI [of _ "createNewCandle x ?start (Num T)"] exI [of _ "[]"] exI [of _ "[x]"]) simp
  next
    case False
    from snoc.IH [OF False] obtain cur p r where
      b: "candleBuilders ?w ?key = Some \<lparr>currentCandle = Some cur, timeframeMs = Num T\<rparr>"
      and xs: "xs = p @ r" and s: "summarises T cur r"
      and p: "p \<noteq> [] \<longrightarrow> getCandleStart (tick_ts (last p)) (Num T) \<noteq> candle_ts_open cur"
      by blast
    have r: "r \<noteq> []" using s by (simp add: summarises_def)
    show ?thesis
    proof (cases "getTime_differs (candle_ts_open cur) ?start")
      case True
      have st: "candleBuilders (snd (buildCandle ?w symbol timeframe x)) ?key
            = Some \<lparr>currentCandle = Some (createNewCandle x ?start (Num T)), timeframeMs = Num T\<rparr>"
        using True by (simp add: buildCandle_next [OF b] Let_def)
      have new: "summarises T (createNewCandle x ?start (Num T)) [x]"
        by (rule summarises_first [OF T])
      have "getCandleStart (tick_ts (last xs)) (Num T) = candle_ts_open cur"
        using summarises_start [OF s T] xs r by simp
      moreover have "candle_ts_open cur \<noteq> ?start"
        using True T
        by (cases "candle_ts_open cur") (auto simp: getTime_differs_def getCandleStart_def Let_def)
      moreover have "candle_ts_open (createNewCandle x ?start (Num T)) = ?start"
        by (simp add: createNewCandle_def)
      ultimately have "getCandleStart (tick_ts (last xs)) (Num T)
                         \<noteq> candle_ts_open (createNewCandle x ?start (Num T))" by simp
      then show ?thesis using st new after False
        by (intro exI [of _ "createNewCandle x ?start (Num T)"] exI [of _ xs] exI [of _ "[x]"]) simp
    next
      case same: False
      have st: "candleBuilders (snd (buildCandle ?w symbol timeframe x)) ?key
            = Some \<lparr>currentCandle = Some (updateCandle cur x), timeframeMs = Num T\<rparr>"
        using same by (simp add: buildCandle_next [OF b] Let_def)
      have upd: "summarises T (updateCandle cur x) (r @ [x])"
        by (rule summarises_update [OF s T same])
      have "candle_ts_open (updateCandle cur x) = candle_ts_open cur"
        by (simp add: updateCandle_def)
      then show ?thesis using st upd after p xs
        by (intro exI [of _ "updateCandle cur x"] exI [of _ p] exI [of _ "r @ [x]"]) simp
    qed
  qed
qed


text \<open>
  Claim C6, as the code has it. Let the ticks of one symbol and timeframe be fed to a
  fresh worker, let \<open>T\<close> be the duration the builder takes for the timeframe, and let the
  call for tick \<open>i\<close> return the completed candle \<open>c\<close>. The period of \<open>c\<close> is the block of
  ticks that arrived last before tick \<open>i\<close> and have the candle start of \<open>c\<close>; the tick
  before the block, if any, and tick \<open>i\<close> have another candle start. Then
  \<open>low \<le> open \<le> high\<close> and \<open>low \<le> close \<le> high\<close>; the candle ends \<open>T\<close> after it
  starts; \<open>open\<close> is the price of the first tick of the period and \<open>close\<close> that of
  the last; every price of the period lies between \<open>low\<close> and \<open>high\<close>; and the start
  is \<open>ts - ts % T\<close> for the timestamp \<open>ts\<close> of every tick of the period, which is
  \<open>floor(ts / T) * T\<close> when \<open>ts\<close> is not negative.
\<close>

theorem completed_candle_invariant:
  assumes "getTimeframeMs timeframe = Num T"
    and "i < length ticks"
    and "completed (fst (feed (ingest symbol timeframe) IndicatorWorker_new ticks) ! i) = Some c"
  shows "\<exists>earlier period.
           take i ticks = earlier @ period \<and> period \<noteq> []
         \<and> (\<forall>t\<in>set period. candle_ts_open c = Date (tick_ts t - js_rem (tick_ts t) T))
         \<and> (\<forall>t\<in>set period. 0 \<le> tick_ts t \<longrightarrow> candle_ts_open c = Date (tick_ts t div T * T))
         \<and> (earlier \<noteq> [] \<longrightarrow> getCandleStart (tick_ts (last earlier)) (Num T) \<noteq> candle_ts_open c)
         \<and> getCandleStart (tick_ts (ticks ! i)) (Num T) \<noteq> candle_ts_open c
         \<and> (\<exists>periodStart. candle_ts_open c = Date periodStart
                \<and> candle_ts_close c = Date (periodStart + T))
         \<and> candle_open c = tick_price (hd period)
         \<and> candle_close c = tick_price (last period)
         \<and> (\<forall>t\<in>set period. candle_low c \<le> tick_price t \<and> tick_price t \<le> candle_high c)
         \<and> candle_low c \<le> candle_open c \<and> candle_open c \<le> candle_high c
         \<and> candle_low c \<le> candle_close c \<and> candle_close c \<le> candle_high c"
proof -
  have T: "0 < T" by (rule getTimeframeMs_positive [OF assms(1)])
  let ?w = "snd (feed (ingest symbol timeframe) IndicatorWorker_new (take i ticks))"
  have res: "fst (feed (ingest symbol timeframe) IndicatorWorker_new ticks) ! i
               = fst (buildCandle ?w symbol timeframe (ticks ! i))"
    using feed_nth [OF assms(2), of "ingest symbol timeframe" IndicatorWorker_new]
    by (simp add: ingest_def)
  have nonempty: "take i ticks \<noteq> []"
  proof
    assume e: "take i ticks = []"
    have "?w = IndicatorWorker_new" unfolding e by simp
    then have "completed (fst (buildCandle ?w symbol timeframe (ticks ! i))) = None"
      by (simp add: buildCandle_first IndicatorWorker_new_def Let_def)
    then show False using assms(3) res by simp
  qed
  from builder_after_ticks [OF assms(1) nonempty, of symbol] obtain cur p r where
    b: "candleBuilders ?w (symbol @ ''_'' @ timeframe)
          = Some \<lparr>currentCandle = Some cur, timeframeMs = Num T\<rparr>"
    and split: "take i ticks = p @ r" and s: "summarises T cur r"
    and p: "p \<noteq> [] \<longrightarrow> getCandleStart (tick_ts (last p)) (Num T) \<noteq> candle_ts_open cur"
    by blast
  have fin: "getTime_differs (candle_ts_open cur) (getCandleStart (tick_ts (ticks ! i)) (Num T))
              \<and> c = cur"
    using assms(3) res by (simp add: buildCandle_next [OF b] Let_def split: if_splits)
  have r: "r \<noteq> []" using s by (simp add: summarises_def)
  then have hd_in: "hd r \<in> set r" and last_in: "last r \<in> set r" by simp_all
  have start: "\<forall>t\<in>set r. candle_ts_open cur = Date (tick_ts t - js_rem (tick_ts t) T)"
    using s by (simp add: summarises_def)
  have floor: "\<forall>t\<in>set r. 0 \<le> tick_ts t \<longrightarrow> candle_ts_open cur = Date (tick_ts t div T * T)"
  proof (intro ballI impI)
    fix t assume t: "t \<in> set r" and nonneg: "0 \<le> tick_ts t"
    have "tick_ts t - js_rem (tick_ts t) T = tick_ts t div T * T"
      using js_rem_nonneg [OF nonneg T] by (simp add: minus_mod_eq_div_mult)
    then show "candle_ts_open cur = Date (tick_ts t div T * T)" using start t by simp
  qed
  have differs: "getCandleStart (tick_ts (ticks ! i)) (Num T) \<noteq> candle_ts_open cur"
    using fin T
    by (cases "candle_ts_open cur") (auto simp: getTime_differs_def getCandleStart_def Let_def)
  have ends: "\<exists>periodStart. candle_ts_open cur = Date periodStart
                \<and> candle_ts_close cur = Date (periodStart + T)"
  proof -
    have o: "candle_ts_open cur = Date (tick_ts (last r) - js_rem (tick_ts (last r)) T)"
      using start last_in by blast
    have "candle_ts_close cur = date_plus (candle_ts_open cur) (Num T)"
      using s by (simp add: summarises_def)
    then have "candle_ts_close cur = Date (tick_ts (last r) - js_rem (tick_ts (last r)) T + T)"
      by (simp add: o date_plus_def)
    with o show ?thesis by blast
  qed
  have prices: "candle_open cur = tick_price (hd r)" "candle_close cur = tick_price (last r)"
    "\<forall>t\<in>set r. candle_low cur \<le> tick_price t \<and> tick_price t \<le> candle_high cur"
    using s by (simp_all add: summarises_def)
  have bounds: "candle_low cur \<le> candle_open cur \<and> candle_open cur \<le> candle_high cur
         \<and> candle_low cur \<le> candle_close cur \<and> candle_close cur \<le> candle_high cur"
    using prices hd_in last_in by simp
  show ?thesis
    using split r start floor p differs ends prices bounds fin
    by (intro exI [of _ p] exI [of _ r]) simp
qed


theorem completed_candle_invariant_witness:
  "getTimeframeMs ''1m'' = Num 60000
   \<and> (3::nat) < length [\<lparr>tick_symbol = ''EURUSD'', tick_ts = 0, tick_price = 1\<rparr>,
                          \<lparr>tick_symbol = ''EURUSD'', tick_ts = 1000, tick_price = 3\<rparr>,
                          \<lparr>tick_symbol = ''EURUSD'', tick_ts = 2000, tick_price = 2\<rparr>,
                          \<lparr>tick_symbol = ''EURUSD'', tick_ts = 60000, tick_price = 5\<rparr>]
   \<and> completed (fst (feed (ingest ''EURUSD'' ''1m'') IndicatorWorker_new
                    [\<lparr>tick_symbol = ''EURUSD'', tick_ts = 0, tick_price = 1\<rparr>,
                     \<lparr>tick_symbol = ''EURUSD'', tick_ts = 1000, tick_price = 3\<rparr>,
                     \<lparr>tick_symbol = ''EURUSD'', tick_ts = 2000, tick_price = 2\<rparr>,
                     \<lparr>tick_symbol = ''EURUSD'', tick_ts = 60000, tick_price = 5\<rparr>]) ! 3)
       = Some \<lparr>candle_symbol = ''EURUSD'', candle_frame = ''1m'', candle_open = 1,
                candle_high = 3, candle_low = 1, candle_close = 2,
                candle_ts_open = Date 0, candle_ts_close = Date 60000,
                candle_volume = 3, candle_tickCount = 3\<rparr>"
  using completed_candle_invariant
          [of "''1m''" 60000 3
              "[\<lparr>tick_symbol = ''EURUSD'', tick_ts = 0, tick_price = 1\<rparr>,
                \<lparr>tick_symbol = ''EURUSD'', tick_ts = 1000, tick_price = 3\<rparr>,
                \<lparr>tick_symbol = ''EURUSD'', tick_ts = 2000, tick_price = 2\<rparr>,
                \<lparr>tick_symbol = ''EURUSD'', tick_ts = 60000, tick_price = 5\<rparr>]"
              "''EURUSD''"
              "\<lparr>candle_symbol = ''EURUSD'', candle_frame = ''1m'', candle_open = 1,
                candle_high = 3, candle_low = 1, candle_close = 2,
                candle_ts_open = Date 0, candle_ts_close = Date 60000,
                candle_volume = 3, candle_tickCount = 3\<rparr>"]
  by (simp add: getTimeframeMs_def get_property_def timeframes_def ingest_def buildCandle_def
        IndicatorWorker_new_def createNewCandle_def updateCandle_def getCandleStart_def
        getMsToTimeframe_def getTime_differs_def date_plus_def js_rem_def Let_def)

text \<open>
  A tick one millisecond before the epoch: its candle starts at time 0, and
  \<open>floor(-1 / 60000) * 60000\<close> is -60000.
\<close>

theorem completed_candle_counterexample:
  "completed (fst (feed (ingest ''EURUSD'' ''1m'') IndicatorWorker_new
                    [\<lparr>tick_symbol = ''EURUSD'', tick_ts = - 1, tick_price = 1\<rparr>,
                     \<lparr>tick_symbol = ''EURUSD'', tick_ts = 60000, tick_price = 2\<rparr>]) ! 1)
     = Some \<lparr>candle_symbol = ''EURUSD'', candle_frame = ''1m'', candle_open = 1,
              candle_high = 1, candle_low = 1, candle_close = 1,
              candle_ts_open = Date 0, candle_ts_close = Date 60000,
              candle_volume = 1, candle_tickCount = 1\<rparr>
   \<and> (- 1) div 60000 * 60000 = (- 60000 :: int)"
  by (simp add: getTimeframeMs_def get_property_def timeframes_def ingest_def buildCandle_def
        IndicatorWorker_new_def createNewCandle_def updateCandle_def getCandleStart_def
        getMsToTimeframe_def getTime_differs_def date_plus_def js_rem_def Let_def)

section \<open>Cancelling a job\<close>

lemma scheduleNext_form:
  "\<exists>tm bd. timer_jobId tm = jobId \<and>
     scheduleNext w jobId symbol timeframe callback intervalMs offset =
       w\<lparr>timeouts := (timeouts w)(nextTimeoutId w \<mapsto> tm),
         nextTimeoutId := nextTimeoutId w + 1,
         jobs := AList.update jobId \<lparr>job_timeoutId = nextTimeoutId w, job_nextExecution = bd\<rparr>
                   (jobs w)\<rparr>"
proof (cases intervalMs)
  case (Num T)
  show ?thesis
  proof (cases "real_of_int (getNextCandleBoundary (env_serverTime w) T - env_serverTime w) - offset \<le> 0")
    case True
    then show ?thesis using Num
      by (intro exI conjI) (simp_all add: scheduleNext_def setTimeout_def Let_def)
  next
    case False
    then show ?thesis using Num
      by (intro exI conjI) (simp_all add: scheduleNext_def setTimeout_def Let_def)
  qed
qed ((intro exI conjI), (simp_all add: scheduleNext_def setTimeout_def Let_def))+


lemma leaves_old_jobs_refl: "leaves_old_jobs w w"
  by (simp add: leaves_old_jobs_def)

lemma leaves_old_jobs_trans:
  assumes "leaves_old_jobs w w'" and "leaves_old_jobs w' w''"
  shows "leaves_old_jobs w w''"
proof -
  from assms obtain n1 n2 where i: "issued w' = issued w @ n1" "issued w'' = issued w' @ n2"
    by (auto simp: leaves_old_jobs_def)
  then have sub: "set (issued w) \<subseteq> set (issued w')" by auto
  show ?thesis
    unfolding leaves_old_jobs_def
  proof (intro conjI ballI impI)
    show "\<exists>new. issued w'' = issued w @ new" using i by simp
  next
    fix k assume "k \<in> set (issued w)" "no_timer_for w k"
    then show "no_timer_for w'' k" using assms sub by (auto simp: leaves_old_jobs_def)
  next
    fix k assume "k \<in> set (issued w)" "map_of (jobs w) k = None"
    then show "map_of (jobs w'') k = None" using assms sub by (auto simp: leaves_old_jobs_def)
  qed
qed

lemma timers_registeredD:
  assumes "timers_registered w" and "timeouts w i = Some tm"
  shows "i < nextTimeoutId w" and "timer_jobId tm \<in> set (issued w)"
    and "map_option job_timeoutId (map_of (jobs w) (timer_jobId tm)) = Some i"
  using assms by (simp_all add: timers_registered_def)

lemma scheduleNext_keeps:
  assumes "timers_registered w" and "no_timer_for w jobId" and "jobId \<in> set (issued w)"
  shows "timers_registered (scheduleNext w jobId symbol timeframe callback intervalMs offset)"
    and "issued (scheduleNext w jobId symbol timeframe callback intervalMs offset) = issued w"
    and "invoked (scheduleNext w jobId symbol timeframe callback intervalMs offset) = invoked w"
    and "k \<noteq> jobId \<Longrightarrow> no_timer_for w k
           \<Longrightarrow> no_timer_for (scheduleNext w jobId symbol timeframe callback intervalMs offset) k"
    and "k \<noteq> jobId
           \<Longrightarrow> map_of (jobs (scheduleNext w jobId symbol timeframe callback intervalMs offset)) k
               = map_of (jobs w) k"
proof -
  from scheduleNext_form [of jobId w symbol timeframe callback intervalMs offset]
  obtain tm bd where tm: "timer_jobId tm = jobId"
    and eq: "scheduleNext w jobId symbol timeframe callback intervalMs offset =
       w\<lparr>timeouts := (timeouts w)(nextTimeoutId w \<mapsto> tm),
         nextTimeoutId := nextTimeoutId w + 1,
         jobs := AList.update jobId \<lparr>job_timeoutId = nextTimeoutId w, job_nextExecution = bd\<rparr>
                   (jobs w)\<rparr>"
    by blast
  show "timers_registered (scheduleNext w jobId symbol timeframe callback intervalMs offset)"
    unfolding eq timers_registered_def
  proof (intro allI impI)
    fix i t
    assume p: "timeouts (w\<lparr>timeouts := (timeouts w)(nextTimeoutId w \<mapsto> tm),
         nextTimeoutId := nextTimeoutId w + 1,
         jobs := AList.update jobId \<lparr>job_timeoutId = nextTimeoutId w, job_nextExecution = bd\<rparr>
                   (jobs w)\<rparr>) i = Some t"
    show "i < nextTimeoutId (w\<lparr>timeouts := (timeouts w)(nextTimeoutId w \<mapsto> tm),
         nextTimeoutId := nextTimeoutId w + 1,
         jobs := AList.update jobId \<lparr>job_timeoutId = nextTimeoutId w, job_nextExecution = bd\<rparr>
                   (jobs w)\<rparr>) \<and>
       timer_jobId t \<in> set (issued (w\<lparr>timeouts := (timeouts w)(nextTimeoutId w \<mapsto> tm),
         nextTimeoutId := nextTimeoutId w + 1,
         jobs := AList.update jobId \<lparr>job_timeoutId = nextTimeoutId w, job_nextExecution = bd\<rparr>
                   (jobs w)\<rparr>)) \<and>
       map_option job_timeoutId (map_of (jobs (w\<lparr>timeouts := (timeouts w)(nextTimeoutId w \<mapsto> tm),
         nextTimeoutId := nextTimeoutId w + 1,
         jobs := AList.update jobId \<lparr>job_timeoutId = nextTimeoutId w, job_nextExecution = bd\<rparr>
                   (jobs w)\<rparr>)) (timer_jobId t)) = Some i"
    proof (cases "i = nextTimeoutId w")
      case True
      then have "t = tm" using p by simp
      then show ?thesis using True tm assms(3) by (simp add: update_conv')
    next
      case False
      then have old: "timeouts w i = Some t" using p by simp
      then have "timer_jobId t \<noteq> jobId" using assms(2) by (auto simp: no_timer_for_def)
      then show ?thesis using timers_registeredD [OF assms(1) old] by (simp add: update_conv')
    qed
  qed
  show "issued (scheduleNext w jobId symbol timeframe callback intervalMs offset) = issued w"
    by (simp add: eq)
  show "invoked (scheduleNext w jobId symbol timeframe callback intervalMs offset) = invoked w"
    by (simp add: eq)
  show "no_timer_for (scheduleNext w jobId symbol timeframe callback intervalMs offset) k"
    if "k \<noteq> jobId" "no_timer_for w k"
    using that tm by (auto simp: eq no_timer_for_def)
  show "map_of (jobs (scheduleNext w jobId symbol timeframe callback intervalMs offset)) k
               = map_of (jobs w) k" if "k \<noteq> jobId"
    using that by (simp add: eq update_conv')
qed


lemma timers_registered_cong:
  assumes "timers_registered w"
    and "timeouts w' = timeouts w" and "nextTimeoutId w' = nextTimeoutId w"
    and "jobs w' = jobs w" and "set (issued w) \<subseteq> set (issued w')"
  shows "timers_registered w'"
  using assms unfolding timers_registered_def by auto

lemma scheduleNext_fields:
  "issued (scheduleNext w jobId symbol timeframe callback intervalMs offset) = issued w"
  "invoked (scheduleNext w jobId symbol timeframe callback intervalMs offset) = invoked w"
proof -
  from scheduleNext_form [of jobId w symbol timeframe callback intervalMs offset]
  obtain tm bd where
    eq: "scheduleNext w jobId symbol timeframe callback intervalMs offset =
       w\<lparr>timeouts := (timeouts w)(nextTimeoutId w \<mapsto> tm),
         nextTimeoutId := nextTimeoutId w + 1,
         jobs := AList.update jobId \<lparr>job_timeoutId = nextTimeoutId w, job_nextExecution = bd\<rparr>
                   (jobs w)\<rparr>"
    by blast
  show "issued (scheduleNext w jobId symbol timeframe callback intervalMs offset) = issued w"
    by (simp add: eq)
  show "invoked (scheduleNext w jobId symbol timeframe callback intervalMs offset) = invoked w"
    by (simp add: eq)
qed

lemma scheduleAtCandleBoundary_fields:
  assumes "scheduleAtCandleBoundary w symbol timeframe callback oo = Inr (jobId, w')"
  shows "issued w' = issued w @ [jobId]" and "invoked w' = invoked w"
  using assms
  by (auto simp: scheduleAtCandleBoundary_def scheduleNext_fields Let_def split: if_splits)

lemma scheduleAtCandleBoundary_keeps:
  assumes "timers_registered w"
    and "scheduleAtCandleBoundary w symbol timeframe callback oo = Inr (jobId, w')"
    and "distinct (issued w')"
  shows "timers_registered w'" and "leaves_old_jobs w w'"
proof -
  let ?w0 = "w\<lparr>issued := issued w @ [jobId]\<rparr>"
  obtain iv off where w': "w' = scheduleNext ?w0 jobId symbol timeframe callback iv off"
    using assms(2) by (auto simp: scheduleAtCandleBoundary_def Let_def split: if_splits)
  have new: "jobId \<notin> set (issued w)"
    using assms(3) scheduleAtCandleBoundary_fields(1) [OF assms(2)] by simp
  have r0: "timers_registered ?w0"
    by (rule timers_registered_cong [OF assms(1)]) auto
  have n0: "no_timer_for ?w0 jobId"
    unfolding no_timer_for_def
  proof (intro allI impI)
    fix i tm assume "timeouts ?w0 i = Some tm"
    then have "timeouts w i = Some tm" by simp
    from timers_registeredD(2) [OF assms(1) this] new show "timer_jobId tm \<noteq> jobId" by auto
  qed
  have i0: "jobId \<in> set (issued ?w0)" by simp
  show "timers_registered w'" unfolding w' by (rule scheduleNext_keeps(1) [OF r0 n0 i0])
  show "leaves_old_jobs w w'"
    unfolding leaves_old_jobs_def
  proof (intro conjI ballI impI)
    show "\<exists>new. issued w' = issued w @ new"
      using scheduleAtCandleBoundary_fields(1) [OF assms(2)] by simp
  next
    fix k assume k: "k \<in> set (issued w)" and nt: "no_timer_for w k"
    have "k \<noteq> jobId" using k new by auto
    moreover have "no_timer_for ?w0 k" using nt by (simp add: no_timer_for_def)
    ultimately show "no_timer_for w' k" unfolding w' by (rule scheduleNext_keeps(4) [OF r0 n0 i0])
  next
    fix k assume k: "k \<in> set (issued w)" and nj: "map_of (jobs w) k = None"
    have "k \<noteq> jobId" using k new by auto
    then have "map_of (jobs w') k = map_of (jobs ?w0) k"
      unfolding w' by (rule scheduleNext_keeps(5) [OF r0 n0 i0])
    then show "map_of (jobs w') k = None" using nj by simp
  qed
qed

lemma cancelJob_keeps:
  assumes "timers_registered w"
  shows "timers_registered (snd (cancelJob w jobId))"
    and "leaves_old_jobs w (snd (cancelJob w jobId))"
    and "invoked (snd (cancelJob w jobId)) = invoked w"
    and "map_of (jobs (snd (cancelJob w jobId))) jobId = None"
proof -
  show "invoked (snd (cancelJob w jobId)) = invoked w"
    by (simp add: cancelJob_def clearTimeout_def Let_def split: option.splits)
  show "map_of (jobs (snd (cancelJob w jobId))) jobId = None"
    by (simp add: cancelJob_def clearTimeout_def Let_def delete_conv' split: option.splits)
  show "timers_registered (snd (cancelJob w jobId))"
  proof (cases "map_of (jobs w) jobId")
    case None
    then show ?thesis using assms by (simp add: cancelJob_def)
  next
    case (Some job)
    have eq: "snd (cancelJob w jobId) =
                w\<lparr>timeouts := (timeouts w)(job_timeoutId job := None),
                  jobs := AList.delete jobId (jobs w)\<rparr>"
      by (simp add: cancelJob_def clearTimeout_def Some Let_def)
    show ?thesis
      unfolding eq timers_registered_def
    proof (intro allI impI)
      fix i tm
      assume p: "timeouts (w\<lparr>timeouts := (timeouts w)(job_timeoutId job := None),
                  jobs := AList.delete jobId (jobs w)\<rparr>) i = Some tm"
      then have ne: "i \<noteq> job_timeoutId job" and old: "timeouts w i = Some tm"
        by (auto split: if_splits)
      note reg = timers_registeredD [OF assms old]
      have "timer_jobId tm \<noteq> jobId"
      proof
        assume "timer_jobId tm = jobId"
        then have "job_timeoutId job = i" using reg(3) Some by simp
        then show False using ne by simp
      qed
      then show "i < nextTimeoutId (w\<lparr>timeouts := (timeouts w)(job_timeoutId job := None),
                  jobs := AList.delete jobId (jobs w)\<rparr>) \<and>
         timer_jobId tm \<in> set (issued (w\<lparr>timeouts := (timeouts w)(job_timeoutId job := None),
                  jobs := AList.delete jobId (jobs w)\<rparr>)) \<and>
         map_option job_timeoutId (map_of (jobs (w\<lparr>timeouts := (timeouts w)(job_timeoutId job := None),
                  jobs := AList.delete jobId (jobs w)\<rparr>)) (timer_jobId tm)) = Some i"
        using reg by (simp add: delete_conv')
    qed
  qed
  show "leaves_old_jobs w (snd (cancelJob w jobId))"
    by (auto simp: leaves_old_jobs_def no_timer_for_def cancelJob_def clearTimeout_def Let_def
          delete_conv' split: option.splits if_splits)
qed


lemma clear_all_fields:
  "timeouts (foldl (\<lambda>v entry. clearTimeout v (job_timeoutId (snd entry))) w js) i
     = (if i \<in> (\<lambda>entry. job_timeoutId (snd entry)) ` set js then None else timeouts w i)"
  "jobs (foldl (\<lambda>v entry. clearTimeout v (job_timeoutId (snd entry))) w js) = jobs w"
  "issued (foldl (\<lambda>v entry. clearTimeout v (job_timeoutId (snd entry))) w js) = issued w"
  "invoked (foldl (\<lambda>v entry. clearTimeout v (job_timeoutId (snd entry))) w js) = invoked w"
  "nextTimeoutId (foldl (\<lambda>v entry. clearTimeout v (job_timeoutId (snd entry))) w js)
     = nextTimeoutId w"
  by (induction js arbitrary: w) (simp_all add: clearTimeout_def)

lemma cancelAllJobs_keeps:
  assumes "timers_registered w"
  shows "timers_registered (cancelAllJobs w)"
    and "leaves_old_jobs w (cancelAllJobs w)"
    and "invoked (cancelAllJobs w) = invoked w"
proof -
  have none: "timeouts (cancelAllJobs w) i = None" for i
  proof (cases "timeouts w i")
    case None
    then show ?thesis by (simp add: cancelAllJobs_def clear_all_fields Let_def)
  next
    case (Some tm)
    from timers_registeredD(3) [OF assms Some] obtain job where
      j: "map_of (jobs w) (timer_jobId tm) = Some job" and i: "job_timeoutId job = i"
      by auto
    from map_of_SomeD [OF j] have "(timer_jobId tm, job) \<in> set (jobs w)" .
    then have "i \<in> (\<lambda>entry. job_timeoutId (snd entry)) ` set (jobs w)"
      using i by force
    then show ?thesis by (simp add: cancelAllJobs_def clear_all_fields Let_def)
  qed
  show "timers_registered (cancelAllJobs w)" by (simp add: timers_registered_def none)
  show "invoked (cancelAllJobs w) = invoked w"
    by (simp add: cancelAllJobs_def clear_all_fields Let_def)
  show "leaves_old_jobs w (cancelAllJobs w)"
    by (simp add: leaves_old_jobs_def no_timer_for_def none)
       (simp add: cancelAllJobs_def clear_all_fields Let_def)
qed

lemma api_fields:
  assumes "api w c = Inr w'"
  shows "\<exists>new. issued w' = issued w @ new" and "invoked w' = invoked w"
proof -
  show "\<exists>new. issued w' = issued w @ new"
  proof (cases c)
    case (ScheduleAtCandleBoundary symbol timeframe callback oo)
    then show ?thesis using assms scheduleAtCandleBoundary_fields(1)
      by (auto split: sum.splits)
  next
    case (CancelJob jobId)
    then show ?thesis using assms
      by (auto simp: cancelJob_def clearTimeout_def Let_def split: option.splits)
  next
    case CancelAllJobs
    then show ?thesis using assms by (auto simp: cancelAllJobs_def clear_all_fields Let_def)
  qed
  show "invoked w' = invoked w"
  proof (cases c)
    case (ScheduleAtCandleBoundary symbol timeframe callback oo)
    then show ?thesis using assms scheduleAtCandleBoundary_fields(2)
      by (auto split: sum.splits)
  next
    case (CancelJob jobId)
    then show ?thesis using assms
      by (auto simp: cancelJob_def clearTimeout_def Let_def split: option.splits)
  next
    case CancelAllJobs
    then show ?thesis using assms by (auto simp: cancelAllJobs_def clear_all_fields Let_def)
  qed
qed

lemma api_keeps:
  assumes "timers_registered w" and "api w c = Inr w'" and "distinct (issued w')"
  shows "timers_registered w'" and "leaves_old_jobs w w'"
proof -
  have "timers_registered w' \<and> leaves_old_jobs w w'"
  proof (cases c)
    case (ScheduleAtCandleBoundary symbol timeframe callback oo)
    with assms(2) obtain jobId where
      "scheduleAtCandleBoundary w symbol timeframe callback oo = Inr (jobId, w')"
      by (auto split: sum.splits)
    from scheduleAtCandleBoundary_keeps [OF assms(1) this assms(3)] show ?thesis by simp
  next
    case (CancelJob jobId)
    then have "w' = snd (cancelJob w jobId)" using assms(2) by simp
    then show ?thesis using cancelJob_keeps(1,2) [OF assms(1)] by simp
  next
    case CancelAllJobs
    then have "w' = cancelAllJobs w" using assms(2) by simp
    then show ?thesis using cancelAllJobs_keeps(1,2) [OF assms(1)] by simp
  qed
  then show "timers_registered w'" and "leaves_old_jobs w w'" by simp_all
qed

lemma run_callback_fields:
  "\<exists>new. issued (run_callback w cs) = issued w @ new"
  "invoked (run_callback w cs) = invoked w"
proof -
  show "\<exists>new. issued (run_callback w cs) = issued w @ new"
  proof (induction cs arbitrary: w)
    case Nil
    then show ?case by simp
  next
    case (Cons c cs)
    show ?case
    proof (cases "api w c")
      case (Inl e)
      then show ?thesis by simp
    next
      case (Inr w1)
      from api_fields(1) [OF Inr] obtain n1 where "issued w1 = issued w @ n1" by blast
      moreover from Cons.IH [of w1] obtain n2 where
        "issued (run_callback w1 cs) = issued w1 @ n2" by blast
      ultimately show ?thesis using Inr by simp
    qed
  qed
  show "invoked (run_callback w cs) = invoked w"
  proof (induction cs arbitrary: w)
    case Nil
    then show ?case by simp
  next
    case (Cons c cs)
    show ?case
    proof (cases "api w c")
      case (Inl e)
      then show ?thesis by simp
    next
      case (Inr w1)
      then show ?thesis using api_fields(2) [OF Inr] Cons.IH [of w1] by simp
    qed
  qed
qed

lemma run_callback_keeps:
  assumes "timers_registered w" and "distinct (issued (run_callback w cs))"
  shows "timers_registered (run_callback w cs) \<and> leaves_old_jobs w (run_callback w cs)"
  using assms
proof (induction cs arbitrary: w)
  case Nil
  then show ?case by (simp add: leaves_old_jobs_refl)
next
  case (Cons c cs)
  show ?case
  proof (cases "api w c")
    case (Inl e)
    then show ?thesis using Cons.prems by (simp add: leaves_old_jobs_refl)
  next
    case (Inr w1)
    have fin: "run_callback w (c # cs) = run_callback w1 cs" using Inr by simp
    from run_callback_fields(1) [of w1 cs] obtain n where
      "issued (run_callback w1 cs) = issued w1 @ n" by blast
    then have d1: "distinct (issued w1)" using Cons.prems(2) fin by simp
    note a = api_keeps [OF Cons.prems(1) Inr d1]
    have "timers_registered (run_callback w1 cs) \<and> leaves_old_jobs w1 (run_callback w1 cs)"
      using Cons.prems(2) fin by (intro Cons.IH [OF a(1)]) simp
    then show ?thesis using fin leaves_old_jobs_trans [OF a(2)] by simp
  qed
qed


lemma executeAtBoundary_form:
  "\<exists>w3 d. executeAtBoundary w jobId symbol timeframe callback expectedTime
             = run_callback w3 (callback_calls callback)
         \<and> timeouts w3 = timeouts w \<and> jobs w3 = jobs w \<and> issued w3 = issued w
         \<and> nextTimeoutId w3 = nextTimeoutId w \<and> invoked w3 = invoked w @ [(jobId, d)]"
proof -
  define timingError where
    "timingError = (case expectedTime of Date e \<Rightarrow> Some (env_serverTime w - e)
                    | Invalid_Date \<Rightarrow> None)"
  define te where
    "te = \<lparr>te_symbol = symbol, te_timeframe = timeframe, te_expectedTime = expectedTime,
            te_actualTime = env_serverTime w, te_errorMs = timingError,
            te_timestamp = env_dateNow w\<rparr>"
  define w2 where
    "w2 = (if length (timingErrors w @ [te]) > 1000
           then w\<lparr>timingErrors := shift (timingErrors w @ [te])\<rparr>
           else w\<lparr>timingErrors := timingErrors w @ [te]\<rparr>)"
  define d where
    "d = \<lparr>cd_symbol = symbol, cd_timeframe = timeframe, cd_expectedTime = expectedTime,
           cd_actualTime = env_serverTime w, cd_timingError = timingError,
           cd_tick = findTickAtBoundary (env_tickBuffers w symbol) expectedTime\<rparr>"
  define w3 where "w3 = w2\<lparr>invoked := invoked w2 @ [(jobId, d)]\<rparr>"
  have "executeAtBoundary w jobId symbol timeframe callback expectedTime
          = run_callback w3 (callback_calls callback)"
    by (simp add: executeAtBoundary_def Let_def w3_def w2_def te_def d_def timingError_def)
  moreover have "timeouts w3 = timeouts w" "jobs w3 = jobs w" "issued w3 = issued w"
    "nextTimeoutId w3 = nextTimeoutId w" "invoked w3 = invoked w @ [(jobId, d)]"
    by (simp_all add: w3_def w2_def)
  ultimately show ?thesis by blast
qed

lemma executeAtBoundary_keeps:
  assumes "timers_registered w"
    and "distinct (issued (executeAtBoundary w jobId symbol timeframe callback expectedTime))"
  shows "timers_registered (executeAtBoundary w jobId symbol timeframe callback expectedTime)"
    and "leaves_old_jobs w (executeAtBoundary w jobId symbol timeframe callback expectedTime)"
    and "\<exists>d. invoked (executeAtBoundary w jobId symbol timeframe callback expectedTime)
                = invoked w @ [(jobId, d)]"
proof -
  from executeAtBoundary_form [of w jobId symbol timeframe callback expectedTime]
  obtain w3 d where
    eq: "executeAtBoundary w jobId symbol timeframe callback expectedTime
           = run_callback w3 (callback_calls callback)"
    and f: "timeouts w3 = timeouts w" "jobs w3 = jobs w" "issued w3 = issued w"
      "nextTimeoutId w3 = nextTimeoutId w"
    and inv: "invoked w3 = invoked w @ [(jobId, d)]"
    by blast
  have r3: "timers_registered w3"
    by (rule timers_registered_cong [OF assms(1)]) (simp_all add: f)
  have l3: "leaves_old_jobs w w3"
    by (simp add: leaves_old_jobs_def no_timer_for_def f)
  note k = run_callback_keeps [OF r3, of "callback_calls callback"]
  show "timers_registered (executeAtBoundary w jobId symbol timeframe callback expectedTime)"
    using k assms(2) by (simp add: eq)
  show "leaves_old_jobs w (executeAtBoundary w jobId symbol timeframe callback expectedTime)"
    using k assms(2) leaves_old_jobs_trans [OF l3] by (simp add: eq)
  show "\<exists>d. invoked (executeAtBoundary w jobId symbol timeframe callback expectedTime)
                = invoked w @ [(jobId, d)]"
    by (simp add: eq run_callback_fields(2) inv)
qed

lemma executeAtBoundary_issued:
  "\<exists>new. issued (executeAtBoundary w jobId symbol timeframe callback expectedTime)
            = issued w @ new"
proof -
  from executeAtBoundary_form [of w jobId symbol timeframe callback expectedTime]
  obtain w3 d where
    eq: "executeAtBoundary w jobId symbol timeframe callback expectedTime
           = run_callback w3 (callback_calls callback)"
    and f: "issued w3 = issued w"
    by blast
  show ?thesis using run_callback_fields(1) [of w3 "callback_calls callback"] by (simp add: eq f)
qed

lemma timeout_function_issued:
  "\<exists>new. issued (timeout_function w tm) = issued w @ new"
  using executeAtBoundary_issued
  by (simp add: timeout_function_def scheduleNext_fields Let_def)

lemma step_issued: "\<exists>new. issued (step w e) = issued w @ new"
proof (cases e)
  case (Call c)
  then show ?thesis using api_fields(1) [of w c] by (cases "api w c") simp_all
next
  case (Fire i)
  show ?thesis
  proof (cases "timeouts w i")
    case None
    then show ?thesis using Fire by simp
  next
    case (Some tm)
    then show ?thesis
      using Fire timeout_function_issued [of "w\<lparr>timeouts := (timeouts w)(i := None)\<rparr>" tm]
      by simp
  qed
qed simp_all

lemma run_events_issued: "\<exists>new. issued (run_events w es) = issued w @ new"
proof (induction es arbitrary: w)
  case Nil
  then show ?case by (simp add: run_events_def)
next
  case (Cons e es)
  from step_issued [of w e] obtain n1 where "issued (step w e) = issued w @ n1" by blast
  moreover from Cons.IH [of "step w e"] obtain n2 where
    "issued (run_events (step w e) es) = issued (step w e) @ n2" by blast
  ultimately show ?case by (simp add: run_events_def)
qed

lemma fire_keeps:
  assumes "timers_registered w" and "timeouts w i = Some tm"
    and "distinct (issued (step w (Fire i)))"
  shows "timers_registered (step w (Fire i))"
    and "k \<in> set (issued w) \<Longrightarrow> k \<noteq> timer_jobId tm \<Longrightarrow> no_timer_for w k
           \<Longrightarrow> no_timer_for (step w (Fire i)) k"
    and "k \<in> set (issued w) \<Longrightarrow> k \<noteq> timer_jobId tm \<Longrightarrow> map_of (jobs w) k = None
           \<Longrightarrow> map_of (jobs (step w (Fire i))) k = None"
    and "\<exists>d. invoked (step w (Fire i)) = invoked w @ [(timer_jobId tm, d)]"
proof -
  let ?J = "timer_jobId tm"
  let ?w0 = "w\<lparr>timeouts := (timeouts w)(i := None)\<rparr>"
  let ?w1 = "executeAtBoundary ?w0 ?J (timer_symbol tm) (timer_timeframe tm)
               (timer_callback tm) (timer_boundary tm)"
  let ?w2 = "scheduleNext ?w1 ?J (timer_symbol tm) (timer_timeframe tm)
               (timer_callback tm) (timer_intervalMs tm) (timer_offset tm)"
  have st: "step w (Fire i) = (if map_of (jobs ?w1) ?J \<noteq> None then ?w2 else ?w1)"
    using assms(2) by (simp add: timeout_function_def Let_def)
  note reg = timers_registeredD [OF assms(1,2)]
  have r0: "timers_registered ?w0"
    using assms(1) unfolding timers_registered_def by (auto split: if_splits)
  have n0: "no_timer_for ?w0 ?J"
    unfolding no_timer_for_def
  proof (intro allI impI notI)
    fix i' t assume p: "timeouts ?w0 i' = Some t" and same: "timer_jobId t = ?J"
    from p have ne: "i' \<noteq> i" and old: "timeouts w i' = Some t" by (auto split: if_splits)
    from timers_registeredD(3) [OF assms(1) old] reg(3) same have "i' = i" by simp
    then show False using ne by simp
  qed
  have "distinct (issued (if map_of (jobs ?w1) ?J \<noteq> None then ?w2 else ?w1))"
    using assms(3) unfolding st .
  then have d1: "distinct (issued ?w1)"
    by (simp add: scheduleNext_fields split: if_splits)
  note ex = executeAtBoundary_keeps [OF r0 d1]
  have J0: "?J \<in> set (issued ?w0)" using reg(2) by simp
  have n1: "no_timer_for ?w1 ?J" using ex(2) J0 n0 by (simp add: leaves_old_jobs_def)
  have J1: "?J \<in> set (issued ?w1)" using ex(2) J0 by (auto simp: leaves_old_jobs_def)
  note sn = scheduleNext_keeps [OF ex(1) n1 J1]
  show "timers_registered (step w (Fire i))" unfolding st using ex(1) sn(1) by simp
  show "no_timer_for (step w (Fire i)) k"
    if "k \<in> set (issued w)" "k \<noteq> ?J" "no_timer_for w k"
  proof -
    have "no_timer_for ?w0 k" using that(3) by (auto simp: no_timer_for_def split: if_splits)
    then have "no_timer_for ?w1 k" using ex(2) that(1) by (simp add: leaves_old_jobs_def)
    then show ?thesis unfolding st using sn(4) [OF that(2)] by simp
  qed
  show "map_of (jobs (step w (Fire i))) k = None"
    if "k \<in> set (issued w)" "k \<noteq> ?J" "map_of (jobs w) k = None"
  proof -
    have "map_of (jobs ?w1) k = None" using ex(2) that(1,3) by (simp add: leaves_old_jobs_def)
    then show ?thesis unfolding st using sn(5) [OF that(2)] by simp
  qed
  show "\<exists>d. invoked (step w (Fire i)) = invoked w @ [(?J, d)]"
    unfolding st using ex(3) sn(3) by auto
qed


lemma step_keeps:
  assumes "timers_registered w" and "distinct (issued (step w e))"
  shows "timers_registered (step w e)"
    and "k \<in> set (issued w) \<Longrightarrow> no_timer_for w k \<Longrightarrow> map_of (jobs w) k = None
           \<Longrightarrow> no_timer_for (step w e) k \<and> map_of (jobs (step w e)) k = None
               \<and> filter (\<lambda>x. fst x = k) (invoked (step w e))
                   = filter (\<lambda>x. fst x = k) (invoked w)"
proof -
  show "timers_registered (step w e)"
  proof (cases e)
    case (Call c)
    show ?thesis
    proof (cases "api w c")
      case (Inl err)
      then show ?thesis using Call assms(1) by simp
    next
      case (Inr w')
      then have "distinct (issued w')" using assms(2) Call by simp
      from api_keeps(1) [OF assms(1) Inr this] show ?thesis using Call Inr by simp
    qed
  next
    case (Fire i)
    show ?thesis
    proof (cases "timeouts w i")
      case None
      then show ?thesis using Fire assms(1) by simp
    next
      case (Some tm)
      show ?thesis unfolding Fire by (rule fire_keeps(1) [OF assms(1) Some assms(2) [unfolded Fire]])
    qed
  next
    case (Clock d t)
    then show ?thesis using assms(1) by (simp add: timers_registered_def)
  next
    case (Ticks symbol buffer)
    then show ?thesis using assms(1) by (simp add: timers_registered_def)
  qed
  show "no_timer_for (step w e) k \<and> map_of (jobs (step w e)) k = None
               \<and> filter (\<lambda>x. fst x = k) (invoked (step w e))
                   = filter (\<lambda>x. fst x = k) (invoked w)"
    if k: "k \<in> set (issued w)" "no_timer_for w k" "map_of (jobs w) k = None"
  proof (cases e)
    case (Call c)
    show ?thesis
    proof (cases "api w c")
      case (Inl err)
      then show ?thesis using Call k by simp
    next
      case (Inr w')
      then have "distinct (issued w')" using assms(2) Call by simp
      from api_keeps(2) [OF assms(1) Inr this] api_fields(2) [OF Inr]
      show ?thesis using Call Inr k by (simp add: leaves_old_jobs_def)
    qed
  next
    case (Fire i)
    show ?thesis
    proof (cases "timeouts w i")
      case None
      then show ?thesis using Fire k by simp
    next
      case (Some tm)
      have ne: "k \<noteq> timer_jobId tm" using k(2) Some by (auto simp: no_timer_for_def)
      note f = fire_keeps [OF assms(1) Some assms(2) [unfolded Fire]]
      from f(4) obtain d where "invoked (step w (Fire i)) = invoked w @ [(timer_jobId tm, d)]"
        by blast
      then have "filter (\<lambda>x. fst x = k) (invoked (step w (Fire i)))
                   = filter (\<lambda>x. fst x = k) (invoked w)"
        using ne by simp
      then show ?thesis unfolding Fire using f(2) [OF k(1) ne k(2)] f(3) [OF k(1) ne k(3)] by simp
    qed
  next
    case (Clock d t)
    then show ?thesis using k by (simp add: no_timer_for_def)
  next
    case (Ticks symbol buffer)
    then show ?thesis using k by (simp add: no_timer_for_def)
  qed
qed

lemma run_events_keeps:
  assumes "timers_registered w" and "distinct (issued (run_events w es))"
  shows "timers_registered (run_events w es)"
    and "k \<in> set (issued w) \<Longrightarrow> no_timer_for w k \<Longrightarrow> map_of (jobs w) k = None
           \<Longrightarrow> filter (\<lambda>x. fst x = k) (invoked (run_events w es))
               = filter (\<lambda>x. fst x = k) (invoked w)"
proof -
  have "timers_registered (run_events w es)
        \<and> (k \<in> set (issued w) \<longrightarrow> no_timer_for w k \<longrightarrow> map_of (jobs w) k = None
             \<longrightarrow> filter (\<lambda>x. fst x = k) (invoked (run_events w es))
                 = filter (\<lambda>x. fst x = k) (invoked w))"
    using assms
  proof (induction es arbitrary: w)
    case Nil
    then show ?case by (simp add: run_events_def)
  next
    case (Cons e es)
    have unroll: "run_events w (e # es) = run_events (step w e) es" by (simp add: run_events_def)
    from run_events_issued [of "step w e" es] obtain n where
      n: "issued (run_events (step w e) es) = issued (step w e) @ n" by blast
    have d1: "distinct (issued (step w e))" using Cons.prems(2) unroll n by simp
    have d2: "distinct (issued (run_events (step w e) es))" using Cons.prems(2) unroll by simp
    note s = step_keeps [OF Cons.prems(1) d1]
    note ih = Cons.IH [OF s(1) d2]
    from step_issued [of w e] obtain m where m: "issued (step w e) = issued w @ m" by blast
    show ?case
      unfolding unroll
    proof (intro conjI impI)
      show "timers_registered (run_events (step w e) es)" using ih by simp
    next
      assume k: "k \<in> set (issued w)" "no_timer_for w k" "map_of (jobs w) k = None"
      have "k \<in> set (issued (step w e))" using k(1) m by simp
      then show "filter (\<lambda>x. fst x = k) (invoked (run_events (step w e) es))
                   = filter (\<lambda>x. fst x = k) (invoked w)"
        using ih s(2) [OF k] by simp
    qed
  qed
  then show "timers_registered (run_events w es)"
    and "k \<in> set (issued w) \<Longrightarrow> no_timer_for w k \<Longrightarrow> map_of (jobs w) k = None
           \<Longrightarrow> filter (\<lambda>x. fst x = k) (invoked (run_events w es))
               = filter (\<lambda>x. fst x = k) (invoked w)"
    by simp_all
qed

lemma run_events_append: "run_events w (es @ fs) = run_events (run_events w es) fs"
  by (simp add: run_events_def)

lemma Scheduler_new_registered: "timers_registered (Scheduler_new dateNow serverTime)"
  by (simp add: timers_registered_def Scheduler_new_def)

text \<open>
  When no job identifier is issued twice, a job that has been issued and has no entry
  in \<open>jobs\<close> (after \<open>cancelJob\<close>, be it called by the application or from within a
  callback, before the re-arm step) is never invoked again.
\<close>

lemma absent_job_never_invoked:
  assumes "distinct (issued (run_events (Scheduler_new dateNow serverTime) (before @ after)))"
    and "jobId \<in> set (issued (run_events (Scheduler_new dateNow serverTime) before))"
    and "map_of (jobs (run_events (Scheduler_new dateNow serverTime) before)) jobId = None"
  shows "filter (\<lambda>x. fst x = jobId)
           (invoked (run_events (Scheduler_new dateNow serverTime) (before @ after)))
         = filter (\<lambda>x. fst x = jobId)
             (invoked (run_events (Scheduler_new dateNow serverTime) before))"
proof -
  let ?w1 = "run_events (Scheduler_new dateNow serverTime) before"
  have all: "distinct (issued (run_events ?w1 after))" using assms(1) by (simp add: run_events_append)
  from run_events_issued [of ?w1 after] obtain n where
    "issued (run_events ?w1 after) = issued ?w1 @ n" by blast
  then have d1: "distinct (issued ?w1)" using all by simp
  have r1: "timers_registered ?w1"
    by (rule run_events_keeps(1) [OF Scheduler_new_registered d1])
  have nt: "no_timer_for ?w1 jobId"
    unfolding no_timer_for_def
  proof (intro allI impI notI)
    fix i tm assume "timeouts ?w1 i = Some tm" and "timer_jobId tm = jobId"
    with timers_registeredD(3) [OF r1, of i tm] assms(3) show False by simp
  qed
  show ?thesis
    unfolding run_events_append
    by (rule run_events_keeps(2) [OF r1 all assms(2) nt assms(3)])
qed

lemma cancelJob_is_final:
  assumes "distinct (issued (run_events (Scheduler_new dateNow serverTime)
                       (before @ Call (CancelJob jobId) # after)))"
    and "jobId \<in> set (issued (run_events (Scheduler_new dateNow serverTime) before))"
  shows "filter (\<lambda>x. fst x = jobId)
           (invoked (run_events (Scheduler_new dateNow serverTime)
                       (before @ Call (CancelJob jobId) # after)))
         = filter (\<lambda>x. fst x = jobId)
             (invoked (run_events (Scheduler_new dateNow serverTime) before))"
proof -
  let ?w1 = "run_events (Scheduler_new dateNow serverTime) before"
  let ?w2 = "run_events (Scheduler_new dateNow serverTime) (before @ [Call (CancelJob jobId)])"
  have w2: "?w2 = snd (cancelJob ?w1 jobId)" by (simp add: run_events_def)
  have 1: "distinct (issued (run_events (Scheduler_new dateNow serverTime)
                       ((before @ [Call (CancelJob jobId)]) @ after)))"
    using assms(1) by simp
  have 2: "jobId \<in> set (issued ?w2)"
    using assms(2) unfolding w2
    by (simp add: cancelJob_def clearTimeout_def Let_def split: option.splits)
  have 3: "map_of (jobs ?w2) jobId = None"
    unfolding w2
    by (simp add: cancelJob_def clearTimeout_def Let_def delete_conv' split: option.splits)
  have "invoked ?w2 = invoked ?w1"
    unfolding w2 by (simp add: cancelJob_def clearTimeout_def Let_def split: option.splits)
  then show ?thesis using absent_job_never_invoked [OF 1 2 3] by simp
qed

text \<open>
  A job whose callback cancels it: the timeout fires once, the job is not re-armed,
  and nothing is left pending.
\<close>

lemma cancel_inside_callback_example:
  "map fst (invoked (run_events (Scheduler_new 1000 1000)
      [Call (ScheduleAtCandleBoundary ''EURUSD'' ''1m''
               (Callback [CancelJob ''EURUSD_1m_1000'']) None),
       Clock 59995 59995,
       Fire 1])) = [''EURUSD_1m_1000'']
   \<and> jobs (run_events (Scheduler_new 1000 1000)
      [Call (ScheduleAtCandleBoundary ''EURUSD'' ''1m''
               (Callback [CancelJob ''EURUSD_1m_1000'']) None),
       Clock 59995 59995,
       Fire 1]) = []
   \<and> map (timeouts (run_events (Scheduler_new 1000 1000)
      [Call (ScheduleAtCandleBoundary ''EURUSD'' ''1m''
               (Callback [CancelJob ''EURUSD_1m_1000'']) None),
       Clock 59995 59995,
       Fire 1])) [1, 2] = [None, None]"
  by (simp add: run_events_def scheduleAtCandleBoundary_def Scheduler_new_def get_property_def
        timeframes_def scheduleNext_def setTimeout_def getNextCandleBoundary_def js_rem_def
        js_string_of_int_def decimal.simps cancelJob_def clearTimeout_def
        timeout_function_def executeAtBoundary_def findTickAtBoundary_def Let_def)

text \<open>
  Claim C5, at an input where it fails. \<open>scheduleAtCandleBoundary\<close> is called twice for
  the same symbol and timeframe while \<open>Date.now()\<close> returns 1000: both calls return
  the job identifier \<open>EURUSD_1m_1000\<close>, and the entry of the second call replaces that
  of the first in \<open>jobs\<close>. \<open>cancelJob\<close> then clears the timeout of the second call
  only. When the timeout of the first call fires, the callback is invoked for the
  cancelled job identifier.
\<close>

theorem cancelled_job_fires_after_id_collision:
  "issued (run_events (Scheduler_new 1000 1000)
      [Call (ScheduleAtCandleBoundary ''EURUSD'' ''1m'' (Callback []) None),
       Call (ScheduleAtCandleBoundary ''EURUSD'' ''1m'' (Callback []) None),
       Call (CancelJob ''EURUSD_1m_1000'')])
     = [''EURUSD_1m_1000'', ''EURUSD_1m_1000'']
   \<and> jobs (run_events (Scheduler_new 1000 1000)
      [Call (ScheduleAtCandleBoundary ''EURUSD'' ''1m'' (Callback []) None),
       Call (ScheduleAtCandleBoundary ''EURUSD'' ''1m'' (Callback []) None),
       Call (CancelJob ''EURUSD_1m_1000'')]) = []
   \<and> invoked (run_events (Scheduler_new 1000 1000)
      [Call (ScheduleAtCandleBoundary ''EURUSD'' ''1m'' (Callback []) None),
       Call (ScheduleAtCandleBoundary ''EURUSD'' ''1m'' (Callback []) None),
       Call (CancelJob ''EURUSD_1m_1000'')]) = []
   \<and> invoked (run_events (Scheduler_new 1000 1000)
      [Call (ScheduleAtCandleBoundary ''EURUSD'' ''1m'' (Callback []) None),
       Call (ScheduleAtCandleBoundary ''EURUSD'' ''1m'' (Callback []) None),
       Call (CancelJob ''EURUSD_1m_1000''),
       Clock 59995 59995,
       Fire 1])
     = [(''EURUSD_1m_1000'',
         \<lparr>cd_symbol = ''EURUSD'', cd_timeframe = ''1m'', cd_expectedTime = Date 60000,
          cd_actualTime = 59995, cd_timingError = Some (- 5), cd_tick = None\<rparr>)]"
  by (simp add: run_events_def scheduleAtCandleBoundary_def Scheduler_new_def get_property_def
        timeframes_def scheduleNext_def setTimeout_def getNextCandleBoundary_def js_rem_def
        js_string_of_int_def decimal.simps cancelJob_def clearTimeout_def
        timeout_function_def executeAtBoundary_def findTickAtBoundary_def Let_def)


end
